theory Spec2Isabelle
  imports Complex_Main "HOL-Library.Word" "HOL-Library.Log_Nat"
begin

section \<open>Values of the host language\<close>

text \<open>
  The functions of \<^verbatim>\<open>tfjs-core/src/util.ts\<close> work on JavaScript values. A JavaScript
  number is an IEEE double: a finite value, one of the two zeros, an infinity or NaN.
  Every finite double is a rational number, so a finite number is modelled by its exact
  value (\<open>Fin\<close>); the negative zero, which \<^verbatim>\<open>Math.round\<close> produces, is kept apart.
  The type has more finite values than there are doubles: what is proved for every
  \<open>number\<close> holds for every double.
\<close>

datatype number = Fin rat | NegZero | NaN | PosInf | NegInf

text \<open>
  Typed arrays are objects with an identity: they live in a store and values refer to
  them by address. \<^verbatim>\<open>Int32Array\<close> holds 32-bit words read as signed integers, the two
  byte arrays hold 8-bit words read as unsigned ones, \<^verbatim>\<open>Float32Array\<close> holds numbers.
\<close>

type_synonym addr = nat

datatype typedArray =
    Float32Array "number list"
  | Int32Array "32 word list"
  | Uint8Array "8 word list"
  | Uint8ClampedArray "8 word list"

type_synonym heap = "typedArray list"

definition lookup :: "heap \<Rightarrow> addr \<Rightarrow> typedArray option" where
  "lookup h a = (if a < length h then Some (h ! a) else None)"

text \<open>Allocation appends a cell; the new address is the old size of the store.\<close>

definition alloc :: "typedArray \<Rightarrow> heap \<Rightarrow> addr \<times> heap" where
  "alloc t h = (length h, h @ [t])"

text \<open>The elements of a typed array, as the numbers an indexed read returns.\<close>

fun elements :: "typedArray \<Rightarrow> number list" where
  "elements (Float32Array xs) = xs"
| "elements (Int32Array ws) = map (\<lambda>w. Fin (of_int (sint w))) ws"
| "elements (Uint8Array bs) = map (\<lambda>b. Fin (of_nat (unat b))) bs"
| "elements (Uint8ClampedArray bs) = map (\<lambda>b. Fin (of_nat (unat b))) bs"

text \<open>
  The values \<^verbatim>\<open>flatten\<close> meets: the primitives, a promise (opaque, with an identity),
  an \<^verbatim>\<open>Array\<close> (a hole reads as \<^verbatim>\<open>undefined\<close>, so an array is the list of what its
  indices read), a reference to a typed array, and any other object, given by its own
  enumerable properties in the order of \<^verbatim>\<open>Object.keys\<close>. An object has one value for
  a key: where a list names a key twice, the first entry is the property.
  Strings are lists of \<open>char\<close>.
\<close>

datatype jsval =
    VNumber number
  | VBoolean bool
  | VString string
  | VPromise nat
  | VNull
  | VUndefined
  | VArray "jsval list"
  | VTyped addr
  | VObject "(string \<times> jsval) list"

fun typeof :: "jsval \<Rightarrow> string" where
  "typeof (VNumber _) = ''number''"
| "typeof (VBoolean _) = ''boolean''"
| "typeof (VString _) = ''string''"
| "typeof VUndefined = ''undefined''"
| "typeof _ = ''object''"

fun isArray :: "jsval \<Rightarrow> bool" where
  "isArray (VArray _) = True"
| "isArray _ = False"

text \<open>
  Modelled from the spec: \<^verbatim>\<open>base.isPromise\<close> of \<^verbatim>\<open>util_base\<close>, which is not among
  the sources. The spec's leaf kinds include "a pending/deferred numeric value"; the
  predicate recognises exactly the promises.
\<close>

fun isPromise :: "jsval \<Rightarrow> bool" where
  "isPromise (VPromise _) = True"
| "isPromise _ = False"

text \<open>
  Modelled from the spec: \<^verbatim>\<open>env().platform.isTypedArray\<close>, whose platform is not among
  the sources: "true if value is one of the fixed homogeneous-buffer kinds".
\<close>

fun isTypedArray :: "jsval \<Rightarrow> bool" where
  "isTypedArray (VTyped _) = True"
| "isTypedArray _ = False"

section \<open>Property keys\<close>

text \<open>
  The test \<^verbatim>\<open>/^([1-9]+[0-9]*|0)$/.test(key)\<close> is a match of the whole key, since the
  pattern is anchored on both sides. The pattern is kept as a regular expression and
  matched by derivatives.
\<close>

datatype regexp =
    Empty
  | Eps
  | Chr char
  | Range char char
  | Alt regexp regexp
  | Seq regexp regexp
  | Star regexp
  | Plus regexp

definition in_range :: "char \<Rightarrow> char \<Rightarrow> char \<Rightarrow> bool" where
  "in_range lo hi c \<longleftrightarrow> (of_char lo :: nat) \<le> of_char c \<and> (of_char c :: nat) \<le> of_char hi"

fun nullable :: "regexp \<Rightarrow> bool" where
  "nullable Empty = False"
| "nullable Eps = True"
| "nullable (Chr _) = False"
| "nullable (Range _ _) = False"
| "nullable (Alt r s) = (nullable r \<or> nullable s)"
| "nullable (Seq r s) = (nullable r \<and> nullable s)"
| "nullable (Star _) = True"
| "nullable (Plus r) = nullable r"

fun deriv :: "char \<Rightarrow> regexp \<Rightarrow> regexp" where
  "deriv c Empty = Empty"
| "deriv c Eps = Empty"
| "deriv c (Chr d) = (if c = d then Eps else Empty)"
| "deriv c (Range lo hi) = (if in_range lo hi c then Eps else Empty)"
| "deriv c (Alt r s) = Alt (deriv c r) (deriv c s)"
| "deriv c (Seq r s) =
     (if nullable r then Alt (Seq (deriv c r) s) (deriv c s) else Seq (deriv c r) s)"
| "deriv c (Star r) = Seq (deriv c r) (Star r)"
| "deriv c (Plus r) = Seq (deriv c r) (Star r)"

fun test :: "regexp \<Rightarrow> string \<Rightarrow> bool" where
  "test r [] = nullable r"
| "test r (c # cs) = test (deriv c r) cs"

text \<open>\<^verbatim>\<open>([1-9]+[0-9]*|0)\<close>\<close>

definition index_key :: regexp where
  "index_key =
     Alt (Seq (Plus (Range CHR ''1'' CHR ''9'')) (Star (Range CHR ''0'' CHR ''9''))) (Chr CHR ''0'')"

text \<open>
  \<^verbatim>\<open>Number(key)\<close> is only applied to a key that passed the test, a string of decimal
  digits, and \<^verbatim>\<open>arr[i]\<close> reads the property whose key is the decimal numeral of \<open>i\<close>.
  Indices are natural numbers: the store, the length of an array and the exactness of
  an index are not bounded.
\<close>

definition digit_value :: "char \<Rightarrow> nat" where
  "digit_value c = of_char c - of_char CHR ''0''"

definition Number_key :: "string \<Rightarrow> nat" where
  "Number_key key = foldl (\<lambda>n c. 10 * n + digit_value c) 0 key"

definition digit_char :: "nat \<Rightarrow> char" where
  "digit_char d = char_of (of_char CHR ''0'' + d)"

fun String_index :: "nat \<Rightarrow> string" where
  "String_index n =
     (if n < 10 then [digit_char n] else String_index (n div 10) @ [digit_char (n mod 10)])"

declare String_index.simps [simp del]

section \<open>Reading a value\<close>

text \<open>\<^verbatim>\<open>Object.keys(arr)\<close>, \<^verbatim>\<open>arr.length\<close> of an array or typed array, and \<^verbatim>\<open>arr[i]\<close>.\<close>

fun keys :: "heap \<Rightarrow> jsval \<Rightarrow> string list" where
  "keys h (VObject ps) = map fst ps"
| "keys h (VArray xs) = map String_index [0..<length xs]"
| "keys h (VTyped a) =
     (case lookup h a of None \<Rightarrow> [] | Some t \<Rightarrow> map String_index [0..<length (elements t)])"
| "keys h (VString s) = map String_index [0..<length s]"
| "keys h _ = []"

fun array_length :: "heap \<Rightarrow> jsval \<Rightarrow> nat" where
  "array_length h (VArray xs) = length xs"
| "array_length h (VTyped a) = (case lookup h a of None \<Rightarrow> 0 | Some t \<Rightarrow> length (elements t))"
| "array_length h _ = 0"

fun Get :: "heap \<Rightarrow> jsval \<Rightarrow> nat \<Rightarrow> jsval" where
  "Get h (VArray xs) i = (if i < length xs then xs ! i else VUndefined)"
| "Get h (VTyped a) i =
     (case lookup h a of None \<Rightarrow> VUndefined
      | Some t \<Rightarrow> if i < length (elements t) then VNumber (elements t ! i) else VUndefined)"
| "Get h (VObject ps) i =
     (case map_of ps (String_index i) of None \<Rightarrow> VUndefined | Some v \<Rightarrow> v)"
| "Get h (VString s) i = (if i < length s then VString [s ! i] else VUndefined)"
| "Get h _ i = VUndefined"

lemma size_nth_less: "i < length xs \<Longrightarrow> size (xs ! i) < size_list size xs"
proof (induction xs arbitrary: i)
  case Nil
  then show ?case by simp
next
  case (Cons x xs)
  show ?case
  proof (cases i)
    case 0
    then show ?thesis by simp
  next
    case (Suc j)
    with Cons.prems have "j < length xs" by simp
    from Cons.IH [OF this] Suc show ?thesis by simp
  qed
qed

lemma size_map_of_less:
  "map_of ps k = Some v \<Longrightarrow> size v < size_list (size_prod (\<lambda>_. 0) size) ps"
  by (induction ps) (auto split: if_splits)

section \<open>flatten\<close>

text \<open>
  \<^verbatim>\<open>flatten(arr, result = [], skipTypedArray = false)\<close> pushes onto \<open>result\<close> and returns
  it; the model passes the array along. \<open>None\<close> is an absent (or null) \<open>result\<close>.
  A \<^verbatim>\<open>for\<close> loop over \<open>0 \<le> i < n\<close> is a left fold over \<open>[0..<n]\<close>.
\<close>

function flatten :: "heap \<Rightarrow> jsval \<Rightarrow> jsval list option \<Rightarrow> bool \<Rightarrow> jsval list" where
  "flatten h arr result skipTypedArray =
     (let result = (case result of None \<Rightarrow> [] | Some r \<Rightarrow> r) in
      if typeof arr = ''boolean'' \<or> typeof arr = ''number'' \<or> typeof arr = ''string'' \<or>
         isPromise arr \<or> arr = VNull \<or> arr = VUndefined \<or>
         isTypedArray arr \<and> skipTypedArray
      then result @ [arr]
      else if isArray arr \<or> isTypedArray arr then
        foldl (\<lambda>result i. flatten h (Get h arr i) (Some result) skipTypedArray)
          result [0..<array_length h arr]
      else
        (let maxIndex =
           foldl (\<lambda>maxIndex key.
                    if test index_key key then max maxIndex (int (Number_key key)) else maxIndex)
             (- 1) (keys h arr)
         in foldl (\<lambda>result i. flatten h (Get h arr i) (Some result) skipTypedArray)
              result [0..<nat (maxIndex + 1)]))"
  by pat_completeness auto

text \<open>
  Every recursive call is on a property of \<open>arr\<close>: an element of an array, a number
  read from a typed array, or the value of a property of an object.
\<close>

termination flatten
proof (relation "measure (\<lambda>(h, arr, result, skip). size arr + (if isTypedArray arr then 1 else 0))")
  show "wf (measure (\<lambda>(h, arr, result, skip). size arr + (if isTypedArray arr then 1 else 0)))"
    by simp
next
  fix h arr and result :: "jsval list option" and skip :: bool and r :: "jsval list" and i :: nat
  assume "isArray arr \<or> isTypedArray arr" and "i \<in> set [0..<array_length h arr]"
  then show "((h, Get h arr i, Some r, skip), (h, arr, result, skip))
      \<in> measure (\<lambda>(h, arr, result, skip). size arr + (if isTypedArray arr then 1 else 0))"
    by (cases arr) (auto simp: lookup_def split: option.splits dest: size_nth_less)
next
  fix h arr and result :: "jsval list option" and skip :: bool and r :: "jsval list" and i :: nat
  assume "\<not> (typeof arr = ''boolean'' \<or> typeof arr = ''number'' \<or> typeof arr = ''string'' \<or>
      isPromise arr \<or> arr = VNull \<or> arr = VUndefined \<or> isTypedArray arr \<and> skip)"
    and "\<not> (isArray arr \<or> isTypedArray arr)"
  then show "((h, Get h arr i, Some r, skip), (h, arr, result, skip))
      \<in> measure (\<lambda>(h, arr, result, skip). size arr + (if isTypedArray arr then 1 else 0))"
    by (cases arr) (auto split: option.splits dest: size_map_of_less)
qed

declare flatten.simps [simp del]

section \<open>Numbers\<close>

text \<open>
  \<^verbatim>\<open>Math.round\<close> returns the integer closest to its argument and, of two equally close
  ones, the greater; a result that is zero keeps the sign of a negative argument.
\<close>

fun Math_round :: "number \<Rightarrow> number" where
  "Math_round (Fin q) = (if q < 0 \<and> - (1 / 2) \<le> q then NegZero else Fin (of_int \<lfloor>q + 1 / 2\<rfloor>))"
| "Math_round x = x"

text \<open>
  Strict equality of numbers: NaN equals nothing, and the two zeros are equal.
\<close>

fun strict_equal :: "number \<Rightarrow> number \<Rightarrow> bool" where
  "strict_equal NaN _ = False"
| "strict_equal _ NaN = False"
| "strict_equal NegZero y = (y = NegZero \<or> y = Fin 0)"
| "strict_equal x NegZero = (x = Fin 0)"
| "strict_equal x y = (x = y)"

text \<open>
  The conversions of a number that a typed array applies to what is stored in it.
  \<open>truncate_rat\<close> drops the fraction (towards zero); \<^verbatim>\<open>ToInt32\<close> and \<^verbatim>\<open>ToUint8\<close> keep the
  integer modulo \<open>2^32\<close> and \<open>2^8\<close>, which is what a word of that width holds, and
  map NaN, the zeros and the infinities to 0.
\<close>

definition truncate_rat :: "rat \<Rightarrow> int" where
  "truncate_rat q = (if q < 0 then - \<lfloor>- q\<rfloor> else \<lfloor>q\<rfloor>)"

fun ToInt32 :: "number \<Rightarrow> 32 word" where
  "ToInt32 (Fin q) = word_of_int (truncate_rat q)"
| "ToInt32 _ = 0"

fun ToUint8 :: "number \<Rightarrow> 8 word" where
  "ToUint8 (Fin q) = word_of_int (truncate_rat q)"
| "ToUint8 _ = 0"

text \<open>
  \<^verbatim>\<open>ToUint8Clamp\<close>, the conversion of a \<^verbatim>\<open>Uint8ClampedArray\<close>: clamped to \<open>0..255\<close>,
  a tie rounded to the even neighbour.
\<close>

definition round_half_even :: "rat \<Rightarrow> int" where
  "round_half_even q =
     (let f = \<lfloor>q\<rfloor>; d = q - of_int f
      in if d < 1 / 2 then f else if 1 / 2 < d then f + 1 else if even f then f else f + 1)"

fun ToUint8Clamp :: "number \<Rightarrow> 8 word" where
  "ToUint8Clamp (Fin q) =
     (if q \<le> 0 then 0 else if 255 \<le> q then 255 else word_of_int (round_half_even q))"
| "ToUint8Clamp PosInf = 255"
| "ToUint8Clamp _ = 0"

text \<open>
  The narrowing of a double to a 32-bit float (round to nearest, ties to even): the
  exponent of the value, not below that of the subnormals, fixes the spacing of the
  floats around it, and a result of magnitude \<open>2^128\<close> or more is an infinity.
\<close>

definition floor_log2 :: "rat \<Rightarrow> int" where
  "floor_log2 q =
     (let (a, b) = quotient_of q; d = bitlen a - bitlen b
      in if power_int 2 d \<le> q then d else d - 1)"

fun fround :: "number \<Rightarrow> number" where
  "fround (Fin q) =
     (if q = 0 then Fin 0
      else
        let e = max (floor_log2 \<bar>q\<bar>) (- 126);
            ulp = power_int 2 (e - 23);
            r = of_int (round_half_even (q / ulp)) * ulp
        in if 2 ^ 128 \<le> \<bar>r\<bar> then (if 0 < q then PosInf else NegInf)
           else if r = 0 then (if q < 0 then NegZero else Fin 0)
           else Fin r)"
| "fround x = x"

section \<open>Errors and collaborators\<close>

text \<open>
  \<^verbatim>\<open>Error\<close> carries the message the source gives it; \<^verbatim>\<open>RangeError\<close> and
  \<^verbatim>\<open>TypeError\<close> are those of the host language and of the validator.
\<close>

datatype error = Error string | RangeError | TypeError

text \<open>
  A call that may throw and may allocate takes the store and returns its outcome with
  the store it leaves. A data type is the string that names it, or null or undefined
  (\<open>None\<close>).
\<close>

type_synonym 'a outcome = "(error + 'a) \<times> heap"

type_synonym DataType = "string option"

text \<open>
  \<^verbatim>\<open>ToNumber\<close> of a string or of an object (through its \<^verbatim>\<open>toString\<close> and
  \<^verbatim>\<open>valueOf\<close>, which may throw) is left to the host language.
\<close>

record engine =
  StringToNumber :: "string \<Rightarrow> number"
  ObjectToNumber :: "heap \<Rightarrow> jsval \<Rightarrow> error + number"

text \<open>
  The environment \<^verbatim>\<open>env()\<close>: the flag \<^verbatim>\<open>DEBUG\<close> and the platform's codec, which
  is not part of this code.
\<close>

record environment =
  DEBUG :: bool
  encode :: "jsval \<Rightarrow> string \<Rightarrow> heap \<Rightarrow> jsval outcome"
  decode :: "jsval \<Rightarrow> string \<Rightarrow> heap \<Rightarrow> jsval outcome"

text \<open>
  The module \<^verbatim>\<open>util_base\<close>, imported as \<^verbatim>\<open>base\<close>, is not part of this code either.
  \<^verbatim>\<open>base.checkConversionForErrors(vals, dtype)\<close> returns nothing or throws: a validator
  gives the error it throws, if any.
\<close>

type_synonym validator = "heap \<Rightarrow> jsval \<Rightarrow> DataType \<Rightarrow> error option"

record util_base =
  checkConversionForErrors :: validator

text \<open>
  Modelled from the spec: \<^verbatim>\<open>base.checkConversionForErrors\<close> of \<^verbatim>\<open>util_base\<close>, which is
  not among the sources. "Scans every value in a numeric sequence and fails with a
  RangeError-kind condition if any value cannot be faithfully represented in the target
  numeric type (e.g., non-integer value destined for an integer type, or magnitude
  outside representable range)." The two hazards that the specification names are the
  findings: for the integer type a value that is not an integer or lies outside the
  32-bit signed range, for the float types (an unspecified type and the complex type
  are stored as floats) a magnitude beyond the largest 32-bit float. NaN and the
  infinities are not integers; the float type has them. The specification names no
  hazard for the boolean type.
\<close>

definition faithful :: "DataType \<Rightarrow> number \<Rightarrow> bool" where
  "faithful dtype x =
     (if dtype = Some ''int32'' then
        (case x of
           Fin q \<Rightarrow> of_int (truncate_rat q) = q \<and> - (2 ^ 31) \<le> q \<and> q < 2 ^ 31
         | NegZero \<Rightarrow> True
         | _ \<Rightarrow> False)
      else if dtype = None \<or> dtype = Some ''float32'' \<or> dtype = Some ''complex64'' then
        (case x of Fin q \<Rightarrow> \<bar>q\<bar> \<le> 2 ^ 128 - 2 ^ 104 | _ \<Rightarrow> True)
      else True)"

definition checkConversionForErrors_spec :: validator where
  "checkConversionForErrors_spec h vals dtype =
     (if list_ex (\<lambda>v. case v of VNumber x \<Rightarrow> \<not> faithful dtype x | _ \<Rightarrow> False)
           (map (Get h vals) [0..<array_length h vals])
      then Some RangeError else None)"

fun ToNumber :: "engine \<Rightarrow> heap \<Rightarrow> jsval \<Rightarrow> error + number" where
  "ToNumber E h (VNumber x) = Inr x"
| "ToNumber E h (VBoolean b) = Inr (if b then Fin 1 else Fin 0)"
| "ToNumber E h VNull = Inr (Fin 0)"
| "ToNumber E h VUndefined = Inr NaN"
| "ToNumber E h (VString s) = Inr (StringToNumber E s)"
| "ToNumber E h v = ObjectToNumber E h v"

section \<open>Typed array constructors\<close>

text \<open>
  \<^verbatim>\<open>new Float32Array(x)\<close>, \<^verbatim>\<open>new Int32Array(x)\<close> and \<^verbatim>\<open>new Uint8Array(x)\<close>. A new
  array is filled with zeros; a write converts the number to the element type, and a
  write outside the array is ignored. An allocation never fails for lack of space: no
  size is too large.
\<close>

datatype constructor = CFloat32Array | CInt32Array | CUint8Array

fun zero_filled :: "constructor \<Rightarrow> nat \<Rightarrow> typedArray" where
  "zero_filled CFloat32Array n = Float32Array (replicate n (Fin 0))"
| "zero_filled CInt32Array n = Int32Array (replicate n 0)"
| "zero_filled CUint8Array n = Uint8Array (replicate n 0)"

fun store :: "typedArray \<Rightarrow> nat \<Rightarrow> number \<Rightarrow> typedArray" where
  "store (Float32Array xs) i x = Float32Array (xs[i := fround x])"
| "store (Int32Array ws) i x = Int32Array (ws[i := ToInt32 x])"
| "store (Uint8Array bs) i x = Uint8Array (bs[i := ToUint8 x])"
| "store (Uint8ClampedArray bs) i x = Uint8ClampedArray (bs[i := ToUint8Clamp x])"

text \<open>\<^verbatim>\<open>arr[i] = x\<close> on a typed array.\<close>

fun SetIndex :: "heap \<Rightarrow> jsval \<Rightarrow> nat \<Rightarrow> number \<Rightarrow> heap" where
  "SetIndex h (VTyped a) i x = (if a < length h then h[a := store (h ! a) i x] else h)"
| "SetIndex h _ i x = h"

text \<open>
  The elements are converted and written one after the other; a conversion that
  throws leaves the array as far as it was written.
\<close>

fun fill :: "engine \<Rightarrow> jsval \<Rightarrow> nat \<Rightarrow> jsval list \<Rightarrow> heap \<Rightarrow> error option \<times> heap" where
  "fill E t i [] h = (None, h)"
| "fill E t i (v # vs) h =
     (case ToNumber E h v of
        Inl e \<Rightarrow> (Some e, h)
      | Inr x \<Rightarrow> fill E t (Suc i) vs (SetIndex h t i x))"

definition from_list :: "constructor \<Rightarrow> engine \<Rightarrow> jsval list \<Rightarrow> heap \<Rightarrow> jsval outcome" where
  "from_list c E vs h =
     (let (a, h1) = alloc (zero_filled c (length vs)) h
      in case fill E (VTyped a) 0 vs h1 of
           (Some e, h2) \<Rightarrow> (Inl e, h2)
         | (None, h2) \<Rightarrow> (Inr (VTyped a), h2))"

text \<open>
  \<^verbatim>\<open>ToIndex\<close>, the length asked for by an argument that is not an object, and
  \<^verbatim>\<open>ToLength\<close>, the length of an array-like object (an infinite one cannot be
  allocated). As no size is too large here, the bound \<open>2^53 - 1\<close> of the language, above
  which \<^verbatim>\<open>ToIndex\<close> throws and at which \<^verbatim>\<open>ToLength\<close> stops, is not modelled; the length
  of an array of the language is below \<open>2^32\<close>.
\<close>

fun ToIndex :: "number \<Rightarrow> error + nat" where
  "ToIndex (Fin q) = (if truncate_rat q < 0 then Inl RangeError else Inr (nat (truncate_rat q)))"
| "ToIndex PosInf = Inl RangeError"
| "ToIndex NegInf = Inl RangeError"
| "ToIndex _ = Inr 0"

fun ToLength :: "number \<Rightarrow> error + nat" where
  "ToLength (Fin q) = Inr (nat (truncate_rat q))"
| "ToLength PosInf = Inl RangeError"
| "ToLength _ = Inr 0"

text \<open>
  The constructor copies an array (the values its iterator gives) or a typed array
  element by element, reads an array-like object up to its \<^verbatim>\<open>length\<close>, and takes any
  other argument as a length.
\<close>

fun new_TypedArray :: "constructor \<Rightarrow> engine \<Rightarrow> jsval \<Rightarrow> heap \<Rightarrow> jsval outcome" where
  "new_TypedArray c E (VArray xs) h = from_list c E xs h"
| "new_TypedArray c E (VTyped a) h =
     from_list c E (map (Get h (VTyped a)) [0..<array_length h (VTyped a)]) h"
| "new_TypedArray c E (VObject ps) h =
     (case ToNumber E h (case map_of ps ''length'' of None \<Rightarrow> VUndefined | Some v \<Rightarrow> v) of
        Inl e \<Rightarrow> (Inl e, h)
      | Inr x \<Rightarrow>
          (case ToLength x of
             Inl e \<Rightarrow> (Inl e, h)
           | Inr n \<Rightarrow> from_list c E (map (Get h (VObject ps)) [0..<n]) h))"
| "new_TypedArray c E (VPromise p) h = from_list c E [] h"
| "new_TypedArray c E v h =
     (case ToNumber E h v of
        Inl e \<Rightarrow> (Inl e, h)
      | Inr x \<Rightarrow>
          (case (if v = VUndefined then Inr 0 else ToIndex x) of
             Inl e \<Rightarrow> (Inl e, h)
           | Inr n \<Rightarrow> (let (a, h1) = alloc (zero_filled c n) h in (Inr (VTyped a), h1))))"

text \<open>\<^verbatim>\<open>a instanceof Float32Array\<close> and its like.\<close>

fun instanceof :: "heap \<Rightarrow> jsval \<Rightarrow> constructor \<Rightarrow> bool" where
  "instanceof h (VTyped a) c =
     (case lookup h a of
        Some (Float32Array _) \<Rightarrow> c = CFloat32Array
      | Some (Int32Array _) \<Rightarrow> c = CInt32Array
      | Some (Uint8Array _) \<Rightarrow> c = CUint8Array
      | _ \<Rightarrow> False)"
| "instanceof h _ c = False"

text \<open>\<^verbatim>\<open>a.length\<close> of any value: reading a property of null or undefined throws.\<close>

fun length_property :: "heap \<Rightarrow> jsval \<Rightarrow> error + jsval" where
  "length_property h (VArray xs) = Inr (VNumber (Fin (of_nat (length xs))))"
| "length_property h (VTyped a) = Inr (VNumber (Fin (of_nat (array_length h (VTyped a)))))"
| "length_property h (VString s) = Inr (VNumber (Fin (of_nat (length s))))"
| "length_property h (VObject ps) =
     Inr (case map_of ps ''length'' of None \<Rightarrow> VUndefined | Some v \<Rightarrow> v)"
| "length_property h VNull = Inl TypeError"
| "length_property h VUndefined = Inl TypeError"
| "length_property h _ = Inr VUndefined"

section \<open>toTypedArray\<close>

definition noConversionNeeded :: "heap \<Rightarrow> jsval \<Rightarrow> DataType \<Rightarrow> bool" where
  "noConversionNeeded h a dtype \<longleftrightarrow>
     instanceof h a CFloat32Array \<and> dtype = Some ''float32'' \<or>
     instanceof h a CInt32Array \<and> dtype = Some ''int32'' \<or>
     instanceof h a CUint8Array \<and> dtype = Some ''bool''"

lemma length_elements_store [simp]: "length (elements (store t i x)) = length (elements t)"
  by (cases t) simp_all

lemma array_length_SetIndex: "array_length (SetIndex h t i x) (VTyped b) = array_length h (VTyped b)"
  by (cases t) (simp_all add: lookup_def nth_list_update)

text \<open>
  The loop of the \<^verbatim>\<open>'bool'\<close> branch:
  \<^verbatim>\<open>for (let i = 0; i < bool.length; ++i) { if (Math.round(a[i]) !== 0) { bool[i] = 1; } }\<close>
\<close>

function bool_loop :: "engine \<Rightarrow> jsval \<Rightarrow> jsval \<Rightarrow> nat \<Rightarrow> heap \<Rightarrow> error option \<times> heap" where
  "bool_loop E a bool i h =
     (if i < array_length h bool then
        (case ToNumber E h (Get h a i) of
           Inl e \<Rightarrow> (Some e, h)
         | Inr x \<Rightarrow>
             bool_loop E a bool (Suc i)
               (if \<not> strict_equal (Math_round x) (Fin 0) then SetIndex h bool i (Fin 1) else h))
      else (None, h))"
  by pat_completeness auto

termination bool_loop
proof (relation "measure (\<lambda>(E, a, bool, i, h). array_length h bool - i)")
  show "wf (measure (\<lambda>(E, a, bool, i, h). array_length h bool - i))"
    by simp
next
  fix E :: engine and a bool :: jsval and i :: nat and h :: heap and x :: number
  assume "i < array_length h bool"
  moreover have "array_length (SetIndex h bool i (Fin 1)) bool = array_length h bool"
    by (cases bool) (simp_all only: array_length_SetIndex, simp_all)
  ultimately show "((E, a, bool, Suc i,
        if \<not> strict_equal (Math_round x) (Fin 0) then SetIndex h bool i (Fin 1) else h),
      E, a, bool, i, h) \<in> measure (\<lambda>(E, a, bool, i, h). array_length h bool - i)"
    by (simp add: diff_less_mono2)
qed

declare bool_loop.simps [simp del]

definition toTypedArray ::
  "engine \<Rightarrow> util_base \<Rightarrow> environment \<Rightarrow> jsval \<Rightarrow> DataType \<Rightarrow> heap \<Rightarrow> jsval outcome" where
  "toTypedArray E base env a dtype h =
     (if dtype = Some ''string'' then
        (Inl (Error ''Cannot convert a string[] to a TypedArray''), h)
      else
        let a = (if isArray a then VArray (flatten h a None False) else a) in
        case (if DEBUG env then checkConversionForErrors base h a dtype else None) of
          Some e \<Rightarrow> (Inl e, h)
        | None \<Rightarrow>
            if noConversionNeeded h a dtype then (Inr a, h)
            else if dtype = None \<or> dtype = Some ''float32'' \<or> dtype = Some ''complex64'' then
              new_TypedArray CFloat32Array E a h
            else if dtype = Some ''int32'' then
              new_TypedArray CInt32Array E a h
            else if dtype = Some ''bool'' then
              (case length_property h a of
                 Inl e \<Rightarrow> (Inl e, h)
               | Inr n \<Rightarrow>
                   (case new_TypedArray CUint8Array E n h of
                      (Inl e, h1) \<Rightarrow> (Inl e, h1)
                    | (Inr bool, h1) \<Rightarrow>
                        (case bool_loop E a bool 0 h1 of
                           (Some e, h2) \<Rightarrow> (Inl e, h2)
                         | (None, h2) \<Rightarrow> (Inr bool, h2))))
            else
              (Inl (Error (''Unknown data type '' @ (case dtype of None \<Rightarrow> [] | Some d \<Rightarrow> d))), h))"

section \<open>Text codec and scalar values\<close>

text \<open>
  \<^verbatim>\<open>encodeString(s, encoding = 'utf-8')\<close> and \<^verbatim>\<open>decodeString(bytes, encoding = 'utf-8')\<close>:
  an absent encoding (\<open>None\<close>) takes the default, and \<^verbatim>\<open>encoding || 'utf-8'\<close> replaces
  the empty string, the only string that is falsy.
\<close>

definition encodeString :: "environment \<Rightarrow> jsval \<Rightarrow> string option \<Rightarrow> heap \<Rightarrow> jsval outcome" where
  "encodeString env s encoding h =
     (let encoding = (case encoding of None \<Rightarrow> ''utf-8'' | Some e \<Rightarrow> e);
          encoding = (if encoding = [] then ''utf-8'' else encoding)
      in encode env s encoding h)"


definition createScalarValue ::
  "engine \<Rightarrow> util_base \<Rightarrow> environment \<Rightarrow> jsval \<Rightarrow> DataType \<Rightarrow> heap \<Rightarrow> jsval outcome" where
  "createScalarValue E base env value dtype h =
     (if dtype = Some ''string'' then encodeString env value None h
      else toTypedArray E base env (VArray [value]) dtype h)"

section \<open>Notions of the statements\<close>

text \<open>
  The language of a regular expression, against which the derivative matcher is
  checked, and the two classes of digits of the key pattern.
\<close>

inductive_set star :: "string set \<Rightarrow> string set" for A :: "string set" where
  star_nil: "[] \<in> star A"
| star_app: "u \<in> A \<Longrightarrow> v \<in> star A \<Longrightarrow> u @ v \<in> star A"

fun lang :: "regexp \<Rightarrow> string set" where
  "lang Empty = {}"
| "lang Eps = {[]}"
| "lang (Chr c) = {[c]}"
| "lang (Range lo hi) = {[c] | c. in_range lo hi c}"
| "lang (Alt r s) = lang r \<union> lang s"
| "lang (Seq r s) = {u @ v | u v. u \<in> lang r \<and> v \<in> lang s}"
| "lang (Star r) = star (lang r)"
| "lang (Plus r) = {u @ v | u v. u \<in> lang r \<and> v \<in> star (lang r)}"

definition digit19 :: "char \<Rightarrow> bool" where
  "digit19 c = in_range CHR ''1'' CHR ''9'' c"

definition digit09 :: "char \<Rightarrow> bool" where
  "digit09 c = in_range CHR ''0'' CHR ''9'' c"

text \<open>
  The parts of \<^verbatim>\<open>flatten\<close>: its test for a leaf and the greatest index among the keys
  of an object.
\<close>

definition is_leaf :: "bool \<Rightarrow> jsval \<Rightarrow> bool" where
  "is_leaf skip arr \<longleftrightarrow> typeof arr = ''boolean'' \<or> typeof arr = ''number'' \<or> typeof arr = ''string'' \<or>
         isPromise arr \<or> arr = VNull \<or> arr = VUndefined \<or> isTypedArray arr \<and> skip"

definition maxIndex :: "string list \<Rightarrow> int" where
  "maxIndex ks = foldl (\<lambda>maxIndex key.
                    if test index_key key then max maxIndex (int (Number_key key)) else maxIndex)
             (- 1) ks"

text \<open>
  In the words of the specification: a tree without array-like objects, its leaves in
  depth-first, left-to-right order, and their number. A scalar, null, undefined and a
  promise are leaves; a typed array is one leaf when typed arrays are skipped and is
  read element by element otherwise; a sequence is read in order.
\<close>

fun sequence_tree :: "jsval \<Rightarrow> bool" where
  "sequence_tree (VArray xs) = (\<forall>x\<in>set xs. sequence_tree x)"
| "sequence_tree (VObject ps) = False"
| "sequence_tree _ = True"

fun leaves :: "heap \<Rightarrow> bool \<Rightarrow> jsval \<Rightarrow> jsval list" where
  "leaves h skip (VArray xs) = concat (map (leaves h skip) xs)"
| "leaves h skip (VTyped a) =
     (if skip then [VTyped a]
      else case lookup h a of None \<Rightarrow> [] | Some t \<Rightarrow> map VNumber (elements t))"
| "leaves h skip (VObject ps) = []"
| "leaves h skip v = [v]"

fun leaf_count :: "heap \<Rightarrow> bool \<Rightarrow> jsval \<Rightarrow> nat" where
  "leaf_count h skip (VArray xs) = sum_list (map (leaf_count h skip) xs)"
| "leaf_count h skip (VTyped a) =
     (if skip then 1 else case lookup h a of None \<Rightarrow> 0 | Some t \<Rightarrow> length (elements t))"
| "leaf_count h skip (VObject ps) = 0"
| "leaf_count h skip v = 1"

text \<open>
  Writing a list of numbers into a typed array from an index on, the typed array that
  holds the converted numbers, and the test of the \<^verbatim>\<open>'bool'\<close> branch.
\<close>

fun stores :: "typedArray \<Rightarrow> nat \<Rightarrow> number list \<Rightarrow> typedArray" where
  "stores t i [] = t"
| "stores t i (x # xs) = stores (store t i x) (Suc i) xs"

fun converted :: "constructor \<Rightarrow> number list \<Rightarrow> typedArray" where
  "converted CFloat32Array xs = Float32Array (map fround xs)"
| "converted CInt32Array xs = Int32Array (map ToInt32 xs)"
| "converted CUint8Array xs = Uint8Array (map ToUint8 xs)"

definition rounds_to_nonzero :: "number \<Rightarrow> bool" where
  "rounds_to_nonzero x \<longleftrightarrow> \<not> strict_equal (Math_round x) (Fin 0)"



section \<open>The key pattern\<close>

lemma nullable_lang: "nullable r \<longleftrightarrow> [] \<in> lang r"
  by (induction r) (auto intro: star_nil)

lemma star_cons:
  "c # w \<in> star A \<longleftrightarrow> (\<exists>u v. w = u @ v \<and> c # u \<in> A \<and> v \<in> star A)"
proof
  assume "c # w \<in> star A"
  then show "\<exists>u v. w = u @ v \<and> c # u \<in> A \<and> v \<in> star A"
  proof (induction "c # w" rule: star.induct)
    case (star_app u v)
    then show ?case by (cases u) auto
  qed
next
  assume "\<exists>u v. w = u @ v \<and> c # u \<in> A \<and> v \<in> star A"
  then obtain u v where "w = u @ v" "c # u \<in> A" "v \<in> star A" by blast
  then show "c # w \<in> star A" using star_app [of "c # u" A v] by simp
qed

lemma deriv_lang: "w \<in> lang (deriv c r) \<longleftrightarrow> c # w \<in> lang r"
proof (induction r arbitrary: w)
  case (Seq r s)
  show ?case
    by (auto simp: Seq nullable_lang Cons_eq_append_conv)
next
  case (Star r)
  show ?case by (auto simp: Star star_cons)
next
  case (Plus r)
  show ?case by (auto simp: Plus star_cons Cons_eq_append_conv nullable_lang)
qed auto

lemma test_lang: "test r s \<longleftrightarrow> s \<in> lang r"
  by (induction s arbitrary: r) (simp_all add: nullable_lang deriv_lang)

lemma star_class: "star {[c] | c. P c} = {s. \<forall>c\<in>set s. P c}"
proof (intro set_eqI iffI)
  fix s assume "s \<in> star {[c] | c. P c}"
  then show "s \<in> {s. \<forall>c\<in>set s. P c}"
    by (induction rule: star.induct) auto
next
  fix s assume "s \<in> {s. \<forall>c\<in>set s. P c}"
  then have "\<forall>c\<in>set s. P c" by simp
  then show "s \<in> star {[c] | c. P c}"
  proof (induction s)
    case Nil
    show ?case by (rule star_nil)
  next
    case (Cons a s)
    then have "[a] \<in> {[c] | c. P c}" and "s \<in> star {[c] | c. P c}" by auto
    from star_app [OF this] show ?case by simp
  qed
qed

lemma digit19_09: "digit19 c \<Longrightarrow> digit09 c"
  by (simp add: digit19_def digit09_def in_range_def)

lemma lang_index_key:
  "k \<in> lang index_key \<longleftrightarrow>
     k = ''0'' \<or> (\<exists>c b v. k = (c # b) @ v \<and> digit19 c \<and> (\<forall>d\<in>set b. digit19 d) \<and> (\<forall>d\<in>set v. digit09 d))"
  (is "?L \<longleftrightarrow> ?Z \<or> ?R")
proof -
  have eq: "lang index_key =
      {u @ v | u v. u \<in> {a @ b | a b. a \<in> {[c] | c. digit19 c} \<and> b \<in> {s. \<forall>c\<in>set s. digit19 c}} \<and>
         v \<in> {s. \<forall>c\<in>set s. digit09 c}} \<union> {''0''}"
    by (simp add: index_key_def star_class digit19_def digit09_def)
  show ?thesis
  proof
    assume ?L
    then consider "k = ''0''" |
      u v a b c where "k = u @ v" "u = a @ b" "a = [c]" "digit19 c" "\<forall>c\<in>set b. digit19 c"
        "\<forall>c\<in>set v. digit09 c"
      unfolding eq by blast
    then show "?Z \<or> ?R"
    proof cases
      case 1
      then show ?thesis by simp
    next
      case 2
      then have "k = (c # b) @ v" by simp
      with 2 show ?thesis by blast
    qed
  next
    assume "?Z \<or> ?R"
    then show ?L
    proof
      assume ?Z
      then show ?L unfolding eq by simp
    next
      assume ?R
      then obtain c b v where k: "k = (c # b) @ v" and c: "digit19 c"
        and b: "\<forall>d\<in>set b. digit19 d" and v: "\<forall>d\<in>set v. digit09 d" by blast
      from c b have "[c] @ b \<in> {a @ b | a b. a \<in> {[c] | c. digit19 c} \<and> b \<in> {s. \<forall>c\<in>set s. digit19 c}}"
        by blast
      with v have "([c] @ b) @ v \<in> {u @ v | u v. u \<in> {a @ b | a b. a \<in> {[c] | c. digit19 c} \<and> b \<in> {s. \<forall>c\<in>set s. digit19 c}} \<and>
         v \<in> {s. \<forall>c\<in>set s. digit09 c}}"
        by blast
      with k show ?L unfolding eq by simp
    qed
  qed
qed

lemma test_index_key:
  "test index_key k \<longleftrightarrow> k = ''0'' \<or> (k \<noteq> [] \<and> digit19 (hd k) \<and> (\<forall>c\<in>set (tl k). digit09 c))"
proof -
  have "(\<exists>c b v. k = (c # b) @ v \<and> digit19 c \<and> (\<forall>d\<in>set b. digit19 d) \<and> (\<forall>d\<in>set v. digit09 d))
      \<longleftrightarrow> k \<noteq> [] \<and> digit19 (hd k) \<and> (\<forall>c\<in>set (tl k). digit09 c)" (is "?L = ?R")
  proof
    assume ?L
    then show ?R by (auto dest: digit19_09)
  next
    assume r: ?R
    then have "k = (hd k # []) @ tl k" by simp
    with r show ?L by (metis empty_iff list.set(1))
  qed
  then show ?thesis by (simp add: test_lang lang_index_key)
qed

section \<open>Properties of flatten\<close>

lemma foldl_append_concat:
  assumes "\<And>r i. i \<in> set js \<Longrightarrow> f r i = r @ g i"
  shows "foldl f r js = r @ concat (map g js)"
  using assms by (induction js arbitrary: r) simp_all

lemma flatten_unfold:
  "flatten h arr result skip =
     (if is_leaf skip arr then (case result of None \<Rightarrow> [] | Some r \<Rightarrow> r) @ [arr]
      else foldl (\<lambda>result i. flatten h (Get h arr i) (Some result) skip)
             (case result of None \<Rightarrow> [] | Some r \<Rightarrow> r)
             [0..<(if isArray arr \<or> isTypedArray arr then array_length h arr
                   else nat (maxIndex (keys h arr) + 1))])"
  by (simp add: flatten.simps [of h arr] is_leaf_def maxIndex_def Let_def)

lemma flatten_acc:
  "flatten h arr result skip = (case result of None \<Rightarrow> [] | Some r \<Rightarrow> r) @ flatten h arr None skip"
proof (induction h arr result skip rule: flatten.induct)
  case (1 h arr result skip)
  define r where "r = (case result of None \<Rightarrow> [] | Some r \<Rightarrow> r)"
  define n where "n = (if isArray arr \<or> isTypedArray arr then array_length h arr
                   else nat (maxIndex (keys h arr) + 1))"
  show ?case
  proof (cases "is_leaf skip arr")
    case True
    then show ?thesis
      by (simp add: flatten_unfold [of h arr])
  next
    case False
    have step: "flatten h (Get h arr i) (Some acc) skip = acc @ flatten h (Get h arr i) None skip"
      if "i \<in> set [0..<n]" for i acc
    proof (cases "isArray arr \<or> isTypedArray arr")
      case True
      with that have "i \<in> set [0..<array_length h arr]" by (simp add: n_def)
      from "1.IH"(1) [OF refl _ True this, of acc] False show ?thesis
        by (simp add: is_leaf_def)
    next
      case no: False
      with that have "i \<in> set [0..<nat (maxIndex (keys h arr) + 1)]" by (simp add: n_def)
      from "1.IH"(2) [OF refl _ no refl, of i acc] False this show ?thesis
        by (simp add: is_leaf_def maxIndex_def)
    qed
    have "foldl (\<lambda>result i. flatten h (Get h arr i) (Some result) skip) acc [0..<n]
        = acc @ concat (map (\<lambda>i. flatten h (Get h arr i) None skip) [0..<n])" for acc
      by (rule foldl_append_concat) (rule step)
    from this [of r] this [of "[]"] False show ?thesis
      unfolding flatten_unfold [of h arr] r_def n_def by simp
  qed
qed

lemma flatten_elements:
  "\<not> is_leaf skip arr \<Longrightarrow> flatten h arr result skip =
     (case result of None \<Rightarrow> [] | Some r \<Rightarrow> r) @
     concat (map (\<lambda>i. flatten h (Get h arr i) None skip)
       [0..<(if isArray arr \<or> isTypedArray arr then array_length h arr
                   else nat (maxIndex (keys h arr) + 1))])"
proof -
  assume "\<not> is_leaf skip arr"
  then have "flatten h arr result skip =
    foldl (\<lambda>result i. flatten h (Get h arr i) (Some result) skip)
             (case result of None \<Rightarrow> [] | Some r \<Rightarrow> r)
             [0..<(if isArray arr \<or> isTypedArray arr then array_length h arr
                   else nat (maxIndex (keys h arr) + 1))]"
    by (simp add: flatten_unfold [of h arr])
  also have "\<dots> = (case result of None \<Rightarrow> [] | Some r \<Rightarrow> r) @
     concat (map (\<lambda>i. flatten h (Get h arr i) None skip)
       [0..<(if isArray arr \<or> isTypedArray arr then array_length h arr
                   else nat (maxIndex (keys h arr) + 1))])"
    by (rule foldl_append_concat) (simp add: flatten_acc [of _ _ "Some _"])
  finally show ?thesis .
qed

lemma digit_value_digit_char: "d < 10 \<Longrightarrow> digit_value (digit_char d) = d"
  by (simp add: digit_value_def digit_char_def)

lemma digit09_digit_char: "d < 10 \<Longrightarrow> digit09 (digit_char d)"
  by (simp add: digit09_def in_range_def digit_char_def)

lemma digit19_digit_char: "0 < d \<Longrightarrow> d < 10 \<Longrightarrow> digit19 (digit_char d)"
  by (simp add: digit19_def in_range_def digit_char_def)

lemma digit_char_digit_value: "digit09 c \<Longrightarrow> digit_char (digit_value c) = c"
  by (simp add: digit09_def in_range_def digit_char_def digit_value_def)

lemma digit_value_less: "digit09 c \<Longrightarrow> digit_value c < 10"
  by (auto simp add: digit09_def in_range_def digit_value_def)

lemma digit_value_pos: "digit19 c \<Longrightarrow> 0 < digit_value c"
  by (auto simp add: digit19_def in_range_def digit_value_def)

lemma String_index_0: "String_index 0 = ''0''"
  by code_simp

lemma Number_key_snoc: "Number_key (ks @ [c]) = 10 * Number_key ks + digit_value c"
  by (simp add: Number_key_def)

lemma String_index_shape:
  "String_index n \<noteq> [] \<and> (\<forall>c\<in>set (String_index n). digit09 c) \<and>
   (0 < n \<longrightarrow> digit19 (hd (String_index n)))"
proof (induction n rule: String_index.induct)
  case (1 n)
  show ?case
  proof (cases "n < 10")
    case True
    then show ?thesis
      by (simp add: String_index.simps [of n] digit09_digit_char digit19_digit_char)
  next
    case False
    then have "0 < n div 10" by simp
    with "1.IH" False show ?thesis
      by (simp add: String_index.simps [of n] digit09_digit_char)
  qed
qed

lemma test_String_index: "test index_key (String_index n)"
proof (cases "n = 0")
  case True
  have "test index_key ''0''"
    unfolding test_index_key by simp
  with True show ?thesis
    by (simp only: String_index_0)
next
  case False
  with String_index_shape [of n] show ?thesis
    by (auto simp: test_index_key dest: list.set_sel(2))
qed

lemma Number_key_String_index: "Number_key (String_index n) = n"
proof (induction n rule: String_index.induct)
  case (1 n)
  show ?case
  proof (cases "n < 10")
    case True
    then show ?thesis
      by (simp add: String_index.simps [of n] Number_key_def digit_value_digit_char)
  next
    case False
    with "1.IH" show ?thesis
      by (simp add: String_index.simps [of n] Number_key_snoc digit_value_digit_char)
  qed
qed

lemma String_index_Number_key_pos:
  "k \<noteq> [] \<Longrightarrow> digit19 (hd k) \<Longrightarrow> \<forall>c\<in>set k. digit09 c \<Longrightarrow>
     String_index (Number_key k) = k \<and> 0 < Number_key k"
proof (induction k rule: rev_induct)
  case Nil
  then show ?case by simp
next
  case (snoc c ks)
  show ?case
  proof (cases "ks = []")
    case True
    with snoc.prems have "digit19 c" by simp
    then have "0 < digit_value c" "digit_value c < 10" "digit_char (digit_value c) = c"
      by (simp_all add: digit_value_pos digit_value_less digit19_09 digit_char_digit_value)
    with True show ?thesis
      by (simp add: Number_key_def String_index.simps [of "digit_value c"])
  next
    case False
    with snoc.prems have "digit19 (hd ks)" "\<forall>c\<in>set ks. digit09 c" "digit09 c" by simp_all
    with snoc.IH False have ih: "String_index (Number_key ks) = ks" "0 < Number_key ks" by simp_all
    from \<open>digit09 c\<close> have d: "digit_value c < 10" "digit_char (digit_value c) = c"
      by (simp_all add: digit_value_less digit_char_digit_value)
    from ih(2) d(1) have "\<not> 10 * Number_key ks + digit_value c < 10" by simp
    with ih d show ?thesis
      by (simp add: Number_key_snoc String_index.simps [of "10 * Number_key ks + digit_value c"])
  qed
qed

lemma String_index_Number_key: "test index_key k \<Longrightarrow> String_index (Number_key k) = k"
proof -
  assume "test index_key k"
  then consider "k = ''0''" | "k \<noteq> []" "digit19 (hd k)" "\<forall>c\<in>set (tl k). digit09 c"
    by (auto simp: test_index_key)
  then show ?thesis
  proof cases
    case 1
    then show ?thesis
      by (simp add: Number_key_def digit_value_def String_index_0)
  next
    case 2
    then have "\<forall>c\<in>set k. digit09 c"
      by (cases k) (auto dest: digit19_09)
    with 2 String_index_Number_key_pos [of k] show ?thesis by simp
  qed
qed

lemma Max_insert_max:
  "finite S \<Longrightarrow> Max (insert (max m a) S) = Max (insert (m::int) (insert a S))"
proof (cases "S = {}")
  case True
  then show ?thesis by simp
next
  case False
  assume "finite S"
  with False show ?thesis by (simp add: max.assoc)
qed

lemma foldl_max_index:
  "foldl (\<lambda>m key. if test index_key key then max m (int (Number_key key)) else m) m ks
     = Max (insert m ((\<lambda>k. int (Number_key k)) ` {k \<in> set ks. test index_key k}))"
proof (induction ks arbitrary: m)
  case Nil
  show ?case by simp
next
  case (Cons k ks)
  define S where "S = (\<lambda>k. int (Number_key k)) ` {k \<in> set ks. test index_key k}"
  have fin: "finite S" by (simp add: S_def)
  have ih: "foldl (\<lambda>m key. if test index_key key then max m (int (Number_key key)) else m) m ks
     = Max (insert m S)" for m
    unfolding S_def by (rule Cons.IH)
  show ?case
  proof (cases "test index_key k")
    case True
    then have "{x \<in> set (k # ks). test index_key x} = insert k {x \<in> set ks. test index_key x}"
      by auto
    then have "(\<lambda>k. int (Number_key k)) ` {x \<in> set (k # ks). test index_key x}
        = insert (int (Number_key k)) S" by (simp add: S_def)
    with True show ?thesis
      by (simp add: ih Max_insert_max [OF fin])
  next
    case False
    then have "{x \<in> set (k # ks). test index_key x} = {x \<in> set ks. test index_key x}"
      by auto
    then have "(\<lambda>k. int (Number_key k)) ` {x \<in> set (k # ks). test index_key x} = S"
      by (simp add: S_def)
    with False show ?thesis by (simp add: ih)
  qed
qed

lemma maxIndex_none:
  assumes "\<forall>k\<in>set ks. \<not> test index_key k"
  shows "maxIndex ks = - 1"
proof -
  from assms have "{k \<in> set ks. test index_key k} = {}" by blast
  then have e: "(\<lambda>k. int (Number_key k)) ` {k \<in> set ks. test index_key k} = {}"
    by (rule image_is_empty [THEN iffD2])
  have "maxIndex ks = Max (insert (- 1) ((\<lambda>k. int (Number_key k)) ` {k \<in> set ks. test index_key k}))"
    by (simp add: maxIndex_def foldl_max_index)
  also have "\<dots> = Max {- 1}" by (simp only: e)
  finally show ?thesis by simp
qed

lemma maxIndex_some:
  assumes "\<exists>k\<in>set ks. test index_key k"
  shows "maxIndex ks = int (Max (Number_key ` {k \<in> set ks. test index_key k}))"
proof -
  let ?K = "{k \<in> set ks. test index_key k}"
  have ne: "?K \<noteq> {}" and fin: "finite ?K" using assms by auto
  have "maxIndex ks = Max (insert (- 1) ((\<lambda>k. int (Number_key k)) ` ?K))"
    by (simp add: maxIndex_def foldl_max_index)
  also have "\<dots> = max (- 1) (Max ((\<lambda>k. int (Number_key k)) ` ?K))"
    using ne fin by simp
  also have "(\<lambda>k. int (Number_key k)) ` ?K = int ` Number_key ` ?K" by (simp add: image_image)
  also have "Max (int ` Number_key ` ?K) = int (Max (Number_key ` ?K))"
    using ne fin by (simp add: mono_Max_commute [symmetric] monoI)
  finally show ?thesis by simp
qed

lemma flatten_primitive:
  "is_leaf skip v \<Longrightarrow> flatten h v None skip = [v]"
  by (simp add: flatten_unfold [of h v])

lemma flatten_VArray:
  "flatten h (VArray xs) None skip = concat (map (\<lambda>x. flatten h x None skip) xs)"
proof -
  have "flatten h (VArray xs) None skip
      = concat (map (\<lambda>i. flatten h (Get h (VArray xs) i) None skip) [0..<length xs])"
    by (simp add: flatten_elements is_leaf_def del: Get.simps)
  also have "map (\<lambda>i. flatten h (Get h (VArray xs) i) None skip) [0..<length xs]
      = map (\<lambda>i. flatten h (xs ! i) None skip) [0..<length xs]"
    by (rule map_cong [OF refl]) simp
  also have "map (\<lambda>i. flatten h (xs ! i) None skip) [0..<length xs]
      = map (\<lambda>x. flatten h x None skip) (map (\<lambda>i. xs ! i) [0..<length xs])"
    by simp
  finally show ?thesis by (simp only: map_nth)
qed

lemma flatten_VTyped:
  "flatten h (VTyped a) None False =
     (case lookup h a of None \<Rightarrow> [] | Some t \<Rightarrow> map VNumber (elements t))"
proof (cases "lookup h a")
  case None
  then show ?thesis by (simp add: flatten_elements is_leaf_def)
next
  case (Some t)
  have "flatten h (VTyped a) None False
      = concat (map (\<lambda>i. flatten h (Get h (VTyped a) i) None False) [0..<length (elements t)])"
    using Some by (simp add: flatten_elements is_leaf_def del: Get.simps)
  also have "map (\<lambda>i. flatten h (Get h (VTyped a) i) None False) [0..<length (elements t)]
      = map (\<lambda>i. flatten h (VNumber (elements t ! i)) None False) [0..<length (elements t)]"
    using Some by (intro map_cong [OF refl]) simp
  also have "concat \<dots> = concat (map (\<lambda>i. [VNumber (elements t ! i)]) [0..<length (elements t)])"
    by (simp add: flatten_primitive is_leaf_def)
  also have "\<dots> = map (\<lambda>i. VNumber (elements t ! i)) [0..<length (elements t)]"
    by (induction "[0..<length (elements t)]") (simp_all add: concat_map_singleton)
  also have "\<dots> = map VNumber (map (\<lambda>i. elements t ! i) [0..<length (elements t)])"
    by simp
  finally show ?thesis using Some by (simp only: map_nth option.case)
qed

lemma flatten_VObject:
  "flatten h (VObject ps) result skip =
     (case result of None \<Rightarrow> [] | Some r \<Rightarrow> r) @
     concat (map (\<lambda>i. case map_of ps (String_index i) of None \<Rightarrow> [VUndefined]
                       | Some v \<Rightarrow> flatten h v None skip)
       [0..<nat (maxIndex (map fst ps) + 1)])"
proof -
  have "flatten h (case map_of ps (String_index i) of None \<Rightarrow> VUndefined | Some v \<Rightarrow> v) None skip
      = (case map_of ps (String_index i) of None \<Rightarrow> [VUndefined] | Some v \<Rightarrow> flatten h v None skip)"
    for i
    by (simp add: flatten_primitive is_leaf_def split: option.split)
  then show ?thesis
    by (simp add: flatten_elements [of skip "VObject ps"] is_leaf_def)
qed

lemma flatten_leaves:
  "sequence_tree arr \<Longrightarrow> flatten h arr None skip = leaves h skip arr"
proof (induction arr)
  case (VArray xs)
  then have "map (\<lambda>x. flatten h x None skip) xs = map (leaves h skip) xs"
    by simp
  then show ?case by (simp only: flatten_VArray leaves.simps)
next
  case (VTyped a)
  show ?case
    by (cases skip) (simp_all add: flatten_VTyped flatten_primitive is_leaf_def)
qed (simp_all add: flatten_primitive is_leaf_def)

lemma length_leaves:
  "sequence_tree arr \<Longrightarrow> length (leaves h skip arr) = leaf_count h skip arr"
proof (induction arr)
  case (VArray xs)
  then have "map (\<lambda>x. length (leaves h skip x)) xs = map (leaf_count h skip) xs"
    by simp
  then show ?case by (simp only: leaves.simps leaf_count.simps length_concat map_map comp_def)
qed (simp_all split: option.split)

text \<open>
  Claim C1. A tree with no array-like object in it is flattened to its leaves in
  depth-first, left-to-right order: the result is what was in \<open>result\<close> followed by
  \<open>leaves\<close>, and its length is the number of leaves. \<open>leaves\<close> and \<open>leaf_count\<close>
  follow the words of the specification: a scalar, null, undefined, a promise and (when
  typed arrays are skipped) a typed array are one leaf each, a sequence is read in
  order, a typed array that is not skipped gives its elements. In particular
  \<^verbatim>\<open>flatten([[1,2],[3,[4,[5]]]])\<close> is \<^verbatim>\<open>[1,2,3,4,5]\<close>.
\<close>

theorem flatten_sequence_tree:
  "(sequence_tree arr \<longrightarrow>
      flatten h arr result skip = (case result of None \<Rightarrow> [] | Some r \<Rightarrow> r) @ leaves h skip arr \<and>
      length (flatten h arr None skip) = leaf_count h skip arr) \<and>
   flatten h (VArray [VArray [VNumber (Fin 1), VNumber (Fin 2)],
                VArray [VNumber (Fin 3), VArray [VNumber (Fin 4), VArray [VNumber (Fin 5)]]]])
     None False
   = [VNumber (Fin 1), VNumber (Fin 2), VNumber (Fin 3), VNumber (Fin 4), VNumber (Fin 5)]"
proof (intro conjI impI)
  assume t: "sequence_tree arr"
  show "flatten h arr result skip = (case result of None \<Rightarrow> [] | Some r \<Rightarrow> r) @ leaves h skip arr"
    using flatten_acc [of h arr result skip] flatten_leaves [OF t, of h skip] by simp
  show "length (flatten h arr None skip) = leaf_count h skip arr"
    by (simp add: flatten_leaves [OF t] length_leaves [OF t])
next
  show "flatten h (VArray [VArray [VNumber (Fin 1), VNumber (Fin 2)],
                VArray [VNumber (Fin 3), VArray [VNumber (Fin 4), VArray [VNumber (Fin 5)]]]])
     None False
   = [VNumber (Fin 1), VNumber (Fin 2), VNumber (Fin 3), VNumber (Fin 4), VNumber (Fin 5)]"
    by (simp add: flatten_VArray flatten_primitive is_leaf_def)
qed

theorem flatten_sequence_tree_witness:
  "sequence_tree (VArray [VBoolean True, VArray [VNull, VTyped 0], VString ''x'']) \<and>
   flatten [Int32Array [7, - 1]] (VArray [VBoolean True, VArray [VNull, VTyped 0], VString ''x''])
     (Some [VUndefined]) False
   = [VUndefined, VBoolean True, VNull, VNumber (Fin 7), VNumber (Fin (- 1)), VString ''x''] \<and>
   length (flatten [Int32Array [7, - 1]]
     (VArray [VBoolean True, VArray [VNull, VTyped 0], VString ''x'']) None False) = 5"
  using flatten_sequence_tree [of "VArray [VBoolean True, VArray [VNull, VTyped 0], VString ''x'']"
      "[Int32Array [7, - 1]]" "Some [VUndefined]" False]
  by (simp add: lookup_def)

lemma index_range:
  "[0..<nat (maxIndex ks + 1)] =
     (if filter (test index_key) ks = [] then []
      else [0..<Suc (Max (set (map Number_key (filter (test index_key) ks))))])"
proof (cases "filter (test index_key) ks = []")
  case True
  then have "\<forall>k\<in>set ks. \<not> test index_key k"
    by (simp add: filter_empty_conv)
  from maxIndex_none [OF this] True show ?thesis by simp
next
  case False
  then have "\<exists>k\<in>set ks. test index_key k"
    by (simp add: filter_empty_conv)
  from maxIndex_some [OF this] False show ?thesis
    by (simp add: nat_add_distrib)
qed

lemma map_of_filter_key:
  "P k \<Longrightarrow> map_of (filter (\<lambda>(k, v). P k) ps) k = map_of ps k"
  by (induction ps) auto

lemma maxIndex_filter:
  "maxIndex (map fst (filter (\<lambda>(k, v). test index_key k) ps)) = maxIndex (map fst ps)"
proof -
  have "{k \<in> set (map fst (filter (\<lambda>(k, v). test index_key k) ps)). test index_key k}
      = {k \<in> set (map fst ps). test index_key k}"
    by force
  then show ?thesis
    by (simp only: maxIndex_def foldl_max_index)
qed

lemma flatten_filter_keys:
  "flatten h (VObject (filter (\<lambda>(k, v). test index_key k) ps)) result skip
     = flatten h (VObject ps) result skip"
  by (simp only: flatten_VObject maxIndex_filter map_of_filter_key [of "test index_key", OF test_String_index])

text \<open>
  Claim C2. For an array-like object (an object that is neither an array nor a typed
  array, given by its enumerable keys), only the keys that match the pattern count:
  when there is none the object contributes nothing; otherwise the indices from 0 to
  the greatest number such a key denotes are read in order, an index whose key the
  object does not have contributes the leaf \<^verbatim>\<open>undefined\<close>, and a value that is there is
  flattened in its place. A key matches exactly when it is the decimal numeral of the
  index it denotes, so the value of every matching key is read. In particular
  \<^verbatim>\<open>flatten({0:'a', 2:'c'})\<close> is \<^verbatim>\<open>['a', undefined, 'c']\<close>.
\<close>

theorem flatten_array_like:
  "flatten h (VObject ps) result skip =
     (case result of None \<Rightarrow> [] | Some r \<Rightarrow> r) @
     concat (map (\<lambda>i. case map_of ps (String_index i) of None \<Rightarrow> [VUndefined]
                       | Some v \<Rightarrow> flatten h v None skip)
       (if filter (test index_key) (map fst ps) = [] then []
        else [0..<Suc (Max (set (map Number_key (filter (test index_key) (map fst ps)))))])) \<and>
   (test index_key k \<longleftrightarrow> k = String_index (Number_key k)) \<and>
   flatten h (VObject [(''0'', VString ''a''), (''2'', VString ''c'')]) None False
     = [VString ''a'', VUndefined, VString ''c'']"
proof (intro conjI)
  show "flatten h (VObject ps) result skip =
     (case result of None \<Rightarrow> [] | Some r \<Rightarrow> r) @
     concat (map (\<lambda>i. case map_of ps (String_index i) of None \<Rightarrow> [VUndefined]
                       | Some v \<Rightarrow> flatten h v None skip)
       (if filter (test index_key) (map fst ps) = [] then []
        else [0..<Suc (Max (set (map Number_key (filter (test index_key) (map fst ps)))))]))"
    by (simp only: flatten_VObject index_range)
  show "test index_key k \<longleftrightarrow> k = String_index (Number_key k)"
    using String_index_Number_key [of k] test_String_index [of "Number_key k"] by auto
  show "flatten h (VObject [(''0'', VString ''a''), (''2'', VString ''c'')]) None False
     = [VString ''a'', VUndefined, VString ''c'']"
    by code_simp
qed

theorem flatten_array_like_witness:
  "flatten [] (VObject [(''1'', VBoolean True), (''x'', VNull)]) (Some [VNull]) True
     = [VNull, VUndefined, VBoolean True]"
  by (rule trans [OF flatten_array_like
        [of "[]" "[(''1'', VBoolean True), (''x'', VNull)]" "Some [VNull]" True "''12''",
         THEN conjunct1]])
    code_simp

text \<open>
  Claim C10. A key counts only if the whole of it matches \<^verbatim>\<open>([1-9]+[0-9]*|0)\<close>: it is
  \<^verbatim>\<open>0\<close>, or it starts with a digit from 1 to 9 and goes on with digits only, which are
  the decimal numerals of the natural numbers. The properties under any other key can
  be removed without changing the result. The keys \<^verbatim>\<open>01\<close>, \<^verbatim>\<open>-1\<close> and \<^verbatim>\<open>1.5\<close> do not
  match; \<^verbatim>\<open>flatten({'01': 'x'})\<close> is empty and \<^verbatim>\<open>flatten({'01': 'x', '1': 'y'})\<close> is
  \<^verbatim>\<open>[undefined, 'y']\<close>.
\<close>

theorem index_keys_only:
  "(test index_key k \<longleftrightarrow>
      k = ''0'' \<or> (k \<noteq> [] \<and> digit19 (hd k) \<and> (\<forall>c\<in>set (tl k). digit09 c))) \<and>
   (test index_key k \<longleftrightarrow> (\<exists>n. k = String_index n)) \<and>
   flatten h (VObject ps) result skip
     = flatten h (VObject (filter (\<lambda>(k, v). test index_key k) ps)) result skip \<and>
   \<not> test index_key ''01'' \<and> \<not> test index_key ''-1'' \<and> \<not> test index_key ''1.5'' \<and>
   flatten h (VObject [(''01'', VString ''x'')]) None False = [] \<and>
   flatten h (VObject [(''01'', VString ''x''), (''1'', VString ''y'')]) None False
     = [VUndefined, VString ''y'']"
proof (intro conjI)
  show "test index_key k \<longleftrightarrow>
      k = ''0'' \<or> (k \<noteq> [] \<and> digit19 (hd k) \<and> (\<forall>c\<in>set (tl k). digit09 c))"
    by (rule test_index_key)
  show "test index_key k \<longleftrightarrow> (\<exists>n. k = String_index n)"
    using String_index_Number_key [of k] test_String_index by metis
  show "flatten h (VObject ps) result skip
     = flatten h (VObject (filter (\<lambda>(k, v). test index_key k) ps)) result skip"
    by (rule flatten_filter_keys [symmetric])
  show "\<not> test index_key ''01''" by code_simp
  show "\<not> test index_key ''-1''" by code_simp
  show "\<not> test index_key ''1.5''" by code_simp
  show "flatten h (VObject [(''01'', VString ''x'')]) None False = []"
    by code_simp
  show "flatten h (VObject [(''01'', VString ''x''), (''1'', VString ''y'')]) None False
     = [VUndefined, VString ''y'']"
    by code_simp
qed

theorem index_keys_only_witness:
  "test index_key ''10'' \<and>
   flatten [] (VObject [(''1.5'', VNull), (''0'', VNull), (''-1'', VNull)]) None False = [VNull]"
proof -
  have "test index_key ''10''"
    using index_keys_only [of "''10''" "[]" "[]" None False, THEN conjunct1] 
    by (simp add: digit19_def digit09_def in_range_def)
  moreover have "flatten [] (VObject [(''1.5'', VNull), (''0'', VNull), (''-1'', VNull)]) None False = [VNull]"
    by (rule trans [OF index_keys_only
        [of "''10''" "[]" "[(''1.5'', VNull), (''0'', VNull), (''-1'', VNull)]" None False,
         THEN conjunct2, THEN conjunct2, THEN conjunct1]])
      code_simp
  ultimately show ?thesis by simp
qed

section \<open>Properties of toTypedArray\<close>

lemma flatten_numbers:
  "flatten h (VArray (map VNumber xs)) None False = map VNumber xs"
proof -
  have "map (\<lambda>x. flatten h x None False) (map VNumber xs) = map (\<lambda>x. [VNumber x]) xs"
    by (simp add: flatten_primitive is_leaf_def)
  then show ?thesis
    by (simp only: flatten_VArray) (simp add: concat_map_singleton)
qed

lemma fill_numbers:
  "a < length h \<Longrightarrow>
     fill E (VTyped a) i (map VNumber xs) h = (None, h[a := stores (h ! a) i xs])"
  by (induction xs arbitrary: i h) simp_all

lemma update_from:
  "i + length xs = length ws \<Longrightarrow>
     foldl (\<lambda>ws (j, x). ws[j := g x]) ws (zip [i..<i + length xs] xs) = take i ws @ map g xs"
proof (induction xs arbitrary: i ws)
  case Nil
  then show ?case by simp
next
  case (Cons x xs)
  from Cons.prems have i: "i < length ws" and l: "Suc i + length xs = length (ws[i := g x])"
    by simp_all
  have "[i..<i + length (x # xs)] = i # [Suc i..<Suc i + length xs]"
    by (simp add: upt_rec)
  then have "foldl (\<lambda>ws (j, x). ws[j := g x]) ws (zip [i..<i + length (x # xs)] (x # xs))
      = foldl (\<lambda>ws (j, x). ws[j := g x]) (ws[i := g x]) (zip [Suc i..<Suc i + length xs] xs)"
    by simp
  also have "\<dots> = take (Suc i) (ws[i := g x]) @ map g xs"
    by (rule Cons.IH [OF l])
  also have "take (Suc i) (ws[i := g x]) = take i ws @ [g x]"
    using i by (simp add: take_Suc_conv_app_nth)
  finally show ?case by simp
qed

lemma stores_Int32Array:
  "stores (Int32Array ws) i xs
     = Int32Array (foldl (\<lambda>ws (j, x). ws[j := ToInt32 x]) ws (zip [i..<i + length xs] xs))"
proof (induction xs arbitrary: i ws)
  case Nil
  show ?case by simp
next
  case (Cons x xs)
  have "[i..<i + length (x # xs)] = i # [Suc i..<Suc i + length xs]"
    by (simp add: upt_rec)
  then show ?case by (simp add: Cons.IH)
qed

lemma stores_Float32Array:
  "stores (Float32Array ws) i xs
     = Float32Array (foldl (\<lambda>ws (j, x). ws[j := fround x]) ws (zip [i..<i + length xs] xs))"
proof (induction xs arbitrary: i ws)
  case Nil
  show ?case by simp
next
  case (Cons x xs)
  have "[i..<i + length (x # xs)] = i # [Suc i..<Suc i + length xs]"
    by (simp add: upt_rec)
  then show ?case by (simp add: Cons.IH)
qed

lemma stores_Uint8Array:
  "stores (Uint8Array ws) i xs
     = Uint8Array (foldl (\<lambda>ws (j, x). ws[j := ToUint8 x]) ws (zip [i..<i + length xs] xs))"
proof (induction xs arbitrary: i ws)
  case Nil
  show ?case by simp
next
  case (Cons x xs)
  have "[i..<i + length (x # xs)] = i # [Suc i..<Suc i + length xs]"
    by (simp add: upt_rec)
  then show ?case by (simp add: Cons.IH)
qed

lemma stores_zero_filled: "stores (zero_filled c (length xs)) 0 xs = converted c xs"
proof (cases c)
  case CFloat32Array
  then show ?thesis
    using update_from [of 0 xs "replicate (length xs) (Fin 0)" fround]
    by (simp add: stores_Float32Array)
next
  case CInt32Array
  then show ?thesis
    using update_from [of 0 xs "replicate (length xs) 0" ToInt32]
    by (simp add: stores_Int32Array)
next
  case CUint8Array
  then show ?thesis
    using update_from [of 0 xs "replicate (length xs) 0" ToUint8]
    by (simp add: stores_Uint8Array)
qed

lemma from_list_numbers:
  "from_list c E (map VNumber xs) h = (Inr (VTyped (length h)), h @ [converted c xs])"
proof -
  have "fill E (VTyped (length h)) 0 (map VNumber xs) (h @ [zero_filled c (length xs)])
      = (None, (h @ [zero_filled c (length xs)])[length h := stores (zero_filled c (length xs)) 0 xs])"
    using fill_numbers [of "length h" "h @ [zero_filled c (length xs)]" E 0 xs] by simp
  then show ?thesis
    by (simp add: from_list_def alloc_def stores_zero_filled)
qed

lemma truncate_rat_of_nat [simp]: "truncate_rat (of_nat n) = int n"
  by (simp add: truncate_rat_def)

lemma new_Uint8Array_length:
  "new_TypedArray CUint8Array E (VNumber (Fin (of_nat n))) h
     = (Inr (VTyped (length h)), h @ [Uint8Array (replicate n 0)])"
  by (simp add: alloc_def)

lemma truncate_rat_one [simp]: "truncate_rat 1 = 1"
  by (simp add: truncate_rat_def)

lemma bool_loop_numbers:
  "b < length h \<Longrightarrow> h ! b = Uint8Array bs \<Longrightarrow> length bs = length xs \<Longrightarrow> i \<le> length xs \<Longrightarrow>
     bool_loop E (VArray (map VNumber xs)) (VTyped b) i h
       = (None, h[b := Uint8Array (take i bs @
            map2 (\<lambda>x y. if rounds_to_nonzero x then 1 else y) (drop i xs) (drop i bs))])"
proof (induction "length xs - i" arbitrary: i h bs)
  case 0
  then have "i = length xs" by simp
  with 0 show ?case
    by (subst bool_loop.simps) (simp add: lookup_def list_update_same_conv [THEN iffD2])
next
  case (Suc n)
  then have i: "i < length xs" by simp
  define bs' where "bs' = (if rounds_to_nonzero (xs ! i) then bs[i := 1] else bs)"
  define h' where "h' = h[b := Uint8Array bs']"
  have h': "(if \<not> strict_equal (Math_round (xs ! i)) (Fin 0) then SetIndex h (VTyped b) i (Fin 1) else h) = h'"
    using Suc.prems(1,2) by (simp add: h'_def bs'_def rounds_to_nonzero_def list_update_same_conv [THEN iffD2])
  have step: "bool_loop E (VArray (map VNumber xs)) (VTyped b) i h
      = bool_loop E (VArray (map VNumber xs)) (VTyped b) (Suc i) h'"
    using Suc.prems i by (subst bool_loop.simps) (simp add: lookup_def h')
  have "n = length xs - Suc i" using Suc.hyps(2) by simp
  moreover have "b < length h'" "h' ! b = Uint8Array bs'" "length bs' = length xs" "Suc i \<le> length xs"
    using Suc.prems i by (simp_all add: h'_def bs'_def)
  ultimately have "bool_loop E (VArray (map VNumber xs)) (VTyped b) (Suc i) h'
      = (None, h'[b := Uint8Array (take (Suc i) bs' @
            map2 (\<lambda>x y. if rounds_to_nonzero x then 1 else y) (drop (Suc i) xs) (drop (Suc i) bs'))])"
    by (rule Suc.hyps(1))
  moreover have "take (Suc i) bs' @
            map2 (\<lambda>x y. if rounds_to_nonzero x then 1 else y) (drop (Suc i) xs) (drop (Suc i) bs')
      = take i bs @ map2 (\<lambda>x y. if rounds_to_nonzero x then 1 else y) (drop i xs) (drop i bs)"
  proof -
    from i Suc.prems(3) have ib: "i < length bs" by simp
    have "drop i xs = xs ! i # drop (Suc i) xs" "drop i bs = bs ! i # drop (Suc i) bs"
      using i ib by (simp_all add: Cons_nth_drop_Suc)
    moreover have "take (Suc i) bs' = take i bs @ [if rounds_to_nonzero (xs ! i) then 1 else bs ! i]"
      using ib by (simp add: bs'_def take_Suc_conv_app_nth)
    moreover have "drop (Suc i) bs' = drop (Suc i) bs"
      by (simp add: bs'_def)
    ultimately show ?thesis by simp
  qed
  ultimately show ?case
    by (simp add: step h'_def)
qed

lemma map2_replicate:
  "map2 f xs (replicate (length xs) z) = map (\<lambda>x. f x z) xs"
  by (induction xs) simp_all

lemma bool_branch_numbers:
  "bool_loop E (VArray (map VNumber xs)) (VTyped (length h)) 0
       (h @ [Uint8Array (replicate (length xs) 0)])
     = (None, h @ [Uint8Array (map (\<lambda>x. if strict_equal (Math_round x) (Fin 0) then 0 else 1) xs)])"
proof -
  have "(\<lambda>x. if rounds_to_nonzero x then 1 else (0 :: 8 word))
      = (\<lambda>x. if strict_equal (Math_round x) (Fin 0) then 0 else 1)"
    by (auto simp: rounds_to_nonzero_def)
  then show ?thesis
    using bool_loop_numbers [of "length h" "h @ [Uint8Array (replicate (length xs) 0)]"
      "replicate (length xs) 0" xs 0 E]
    by (simp add: map2_replicate)
qed

lemma not_noConversionNeeded_VArray [simp]: "\<not> noConversionNeeded h (VArray xs) dtype"
  by (simp add: noConversionNeeded_def)

lemma toTypedArray_numbers:
  assumes "isArray a" and "flatten h a None False = map VNumber xs"
    and "dtype \<noteq> Some ''string''"
  shows "toTypedArray E base env a dtype h =
     (case (if DEBUG env then checkConversionForErrors base h (VArray (map VNumber xs)) dtype else None) of
        Some e \<Rightarrow> (Inl e, h)
      | None \<Rightarrow>
          if dtype = None \<or> dtype = Some ''float32'' \<or> dtype = Some ''complex64'' then
            (Inr (VTyped (length h)), h @ [Float32Array (map fround xs)])
          else if dtype = Some ''int32'' then
            (Inr (VTyped (length h)), h @ [Int32Array (map ToInt32 xs)])
          else if dtype = Some ''bool'' then
            (Inr (VTyped (length h)),
             h @ [Uint8Array (map (\<lambda>x. if strict_equal (Math_round x) (Fin 0) then 0 else 1) xs)])
          else (Inl (Error (''Unknown data type '' @ (case dtype of None \<Rightarrow> [] | Some d \<Rightarrow> d))), h))"
proof -
  have pre: "(if isArray a then VArray (flatten h a None False) else a) = VArray (map VNumber xs)"
    using assms(1,2) by simp
  have new: "new_TypedArray c E (VArray (map VNumber xs)) h
      = (Inr (VTyped (length h)), h @ [converted c xs])" for c
    by (simp add: from_list_numbers)
  have len: "length_property h (VArray (map VNumber xs)) = Inr (VNumber (Fin (of_nat (length xs))))"
    by simp
  show ?thesis
  proof (cases "if DEBUG env then checkConversionForErrors base h (VArray (map VNumber xs)) dtype else None")
    case None
    with assms(3) show ?thesis
      unfolding toTypedArray_def Let_def pre new len
      by (simp add: new_Uint8Array_length bool_branch_numbers del: new_TypedArray.simps)
  next
    case (Some e)
    with assms(3) show ?thesis
      unfolding toTypedArray_def Let_def pre
      by simp
  qed
qed

lemma floor_numeral_div_rat [simp]:
  "\<lfloor>(numeral a :: rat) / numeral b\<rfloor> = numeral a div numeral b"
  using floor_divide_of_int_eq [of "numeral a" "numeral b", where ?'a = rat] by simp

lemma strict_equal_round_zero:
  "strict_equal (Math_round (Fin q)) (Fin 0) \<longleftrightarrow> - (1 / 2) \<le> q \<and> q < 1 / 2"
proof (cases "q < 0 \<and> - (1 / 2) \<le> q")
  case True
  then show ?thesis by simp
next
  case False
  have "\<lfloor>q + 1 / 2\<rfloor> = 0 \<longleftrightarrow> - (1 / 2) \<le> q \<and> q < 1 / 2"
    by (simp add: floor_eq_iff) linarith
  with False show ?thesis by auto
qed

text \<open>
  Claim C3. An array that flattens to the numbers \<open>xs\<close>, coerced to \<^verbatim>\<open>'bool'\<close>, gives a
  new byte array of the same length whose byte is 0 where \<^verbatim>\<open>Math.round\<close> of the number
  is equal to 0 and 1 elsewhere. For a finite number the rounded value is 0 exactly from
  \<open>-1/2\<close> up to, but not including, \<open>1/2\<close>; the negative zero is equal to 0, NaN and
  the infinities are not. When the debug flag is set the validator
  runs first and, if it throws, nothing is allocated. In particular
  \<^verbatim>\<open>toTypedArray([0, 0.4, -0.4, 1, -1], 'bool')\<close> is the byte array \<^verbatim>\<open>[0, 0, 0, 1, 1]\<close>
  (\<open>0.4\<close> is the double \<open>3602879701896397 / 2^53\<close>).
\<close>

theorem toTypedArray_bool:
  "(isArray a \<and> flatten h a None False = map VNumber xs \<longrightarrow>
      toTypedArray E base env a (Some ''bool'') h =
        (case (if DEBUG env then checkConversionForErrors base h (VArray (map VNumber xs)) (Some ''bool'') else None) of
           Some e \<Rightarrow> (Inl e, h)
         | None \<Rightarrow>
             (Inr (VTyped (length h)),
              h @ [Uint8Array (map (\<lambda>x. if strict_equal (Math_round x) (Fin 0) then 0 else 1) xs)]))) \<and>
   (strict_equal (Math_round (Fin q)) (Fin 0) \<longleftrightarrow> - (1 / 2) \<le> q \<and> q < 1 / 2) \<and>
   strict_equal (Math_round NegZero) (Fin 0) \<and>
   \<not> strict_equal (Math_round NaN) (Fin 0) \<and>
   \<not> strict_equal (Math_round PosInf) (Fin 0) \<and>
   \<not> strict_equal (Math_round NegInf) (Fin 0) \<and>
   (\<not> DEBUG env \<longrightarrow>
      toTypedArray E base env
        (VArray [VNumber (Fin 0), VNumber (Fin (3602879701896397 / 9007199254740992)),
                 VNumber (Fin (- 3602879701896397 / 9007199254740992)),
                 VNumber (Fin 1), VNumber (Fin (- 1))])
        (Some ''bool'') h
      = (Inr (VTyped (length h)), h @ [Uint8Array [0, 0, 0, 1, 1]]))"
proof (intro conjI impI)
  assume "isArray a \<and> flatten h a None False = map VNumber xs"
  then have a: "isArray a" "flatten h a None False = map VNumber xs" by simp_all
  show "toTypedArray E base env a (Some ''bool'') h =
        (case (if DEBUG env then checkConversionForErrors base h (VArray (map VNumber xs)) (Some ''bool'') else None) of
           Some e \<Rightarrow> (Inl e, h)
         | None \<Rightarrow>
             (Inr (VTyped (length h)),
              h @ [Uint8Array (map (\<lambda>x. if strict_equal (Math_round x) (Fin 0) then 0 else 1) xs)]))"
    by (simp add: toTypedArray_numbers [OF a])
next
  show "strict_equal (Math_round (Fin q)) (Fin 0) \<longleftrightarrow> - (1 / 2) \<le> q \<and> q < 1 / 2"
    by (rule strict_equal_round_zero)
next
  show "strict_equal (Math_round NegZero) (Fin 0)"
    and "\<not> strict_equal (Math_round NaN) (Fin 0)"
    and "\<not> strict_equal (Math_round PosInf) (Fin 0)"
    and "\<not> strict_equal (Math_round NegInf) (Fin 0)"
    by simp_all
next
  assume d: "\<not> DEBUG env"
  let ?xs = "[Fin 0, Fin (3602879701896397 / 9007199254740992),
      Fin (- 3602879701896397 / 9007199254740992), Fin 1, Fin (- 1)]"
  have f: "flatten h (VArray (map VNumber ?xs)) None False = map VNumber ?xs"
    by (rule flatten_numbers)
  have "toTypedArray E base env (VArray (map VNumber ?xs)) (Some ''bool'') h
      = (Inr (VTyped (length h)),
          h @ [Uint8Array (map (\<lambda>x. if strict_equal (Math_round x) (Fin 0) then 0 else 1) ?xs)])"
    using d by (subst toTypedArray_numbers [OF _ f]) simp_all
  then show "toTypedArray E base env
        (VArray [VNumber (Fin 0), VNumber (Fin (3602879701896397 / 9007199254740992)),
                 VNumber (Fin (- 3602879701896397 / 9007199254740992)),
                 VNumber (Fin 1), VNumber (Fin (- 1))])
        (Some ''bool'') h
      = (Inr (VTyped (length h)), h @ [Uint8Array [0, 0, 0, 1, 1]])"
    by (simp add: strict_equal_round_zero del: Math_round.simps)
qed

theorem toTypedArray_bool_witness:
  "isArray (VArray [VArray [VNumber (Fin (7 / 2))], VNumber NaN, VNumber (Fin (- (1 / 4)))]) \<and>
   flatten [] (VArray [VArray [VNumber (Fin (7 / 2))], VNumber NaN, VNumber (Fin (- (1 / 4)))]) None False
     = map VNumber [Fin (7 / 2), NaN, Fin (- (1 / 4))] \<and>
   toTypedArray \<lparr>StringToNumber = \<lambda>s. NaN, ObjectToNumber = \<lambda>h v. Inr NaN\<rparr>
     \<lparr>checkConversionForErrors = \<lambda>h a d. None\<rparr>
     \<lparr>DEBUG = False, encode = \<lambda>s e h. (Inl TypeError, h), decode = \<lambda>b e h. (Inl TypeError, h)\<rparr>
     (VArray [VArray [VNumber (Fin (7 / 2))], VNumber NaN, VNumber (Fin (- (1 / 4)))]) (Some ''bool'') []
   = (Inr (VTyped 0), [Uint8Array [1, 1, 0]])"
proof -
  have f: "flatten [] (VArray [VArray [VNumber (Fin (7 / 2))], VNumber NaN, VNumber (Fin (- (1 / 4)))]) None False
     = map VNumber [Fin (7 / 2), NaN, Fin (- (1 / 4))]"
    by code_simp
  have r: "map (\<lambda>x. if strict_equal (Math_round x) (Fin 0) then 0 else (1 :: 8 word))
      [Fin (7 / 2), NaN, Fin (- (1 / 4))] = [1, 1, 0]"
    by (simp add: strict_equal_round_zero del: Math_round.simps) simp
  from toTypedArray_bool [of "VArray [VArray [VNumber (Fin (7 / 2))], VNumber NaN, VNumber (Fin (- (1 / 4)))]"
      "[]" "[Fin (7 / 2), NaN, Fin (- (1 / 4))]"
      "\<lparr>StringToNumber = \<lambda>s. NaN, ObjectToNumber = \<lambda>h v. Inr NaN\<rparr>"
      "\<lparr>checkConversionForErrors = \<lambda>h a d. None\<rparr>"
      "\<lparr>DEBUG = False, encode = \<lambda>s e h. (Inl TypeError, h), decode = \<lambda>b e h. (Inl TypeError, h)\<rparr>"
      0] f r
  show ?thesis by simp
qed

lemma truncate_rat_floor_ceiling: "truncate_rat q = (if 0 \<le> q then \<lfloor>q\<rfloor> else \<lceil>q\<rceil>)"
  by (simp add: truncate_rat_def ceiling_def)

lemma sint_ToInt32:
  "- (2 ^ 31) \<le> truncate_rat q \<Longrightarrow> truncate_rat q < 2 ^ 31 \<Longrightarrow>
     sint (ToInt32 (Fin q)) = truncate_rat q"
  by (simp add: sint_sbintrunc' signed_take_bit_int_eq_self)

lemma ToInt32_wraps: "sint (ToInt32 (Fin q)) mod 2 ^ 32 = truncate_rat q mod 2 ^ 32"
proof -
  have "sint (word_of_int (truncate_rat q) :: 32 word)
      = (truncate_rat q + 2 ^ 31) mod 2 ^ 32 - 2 ^ 31"
    by (simp add: sint_sbintrunc' signed_take_bit_eq_take_bit_shift take_bit_eq_mod)
  then have "sint (word_of_int (truncate_rat q) :: 32 word) mod 2 ^ 32
      = ((truncate_rat q + 2 ^ 31) mod 2 ^ 32 - 2 ^ 31) mod 2 ^ 32"
    by simp
  also have "\<dots> = truncate_rat q mod 2 ^ 32"
    by (simp add: mod_simps)
  finally show ?thesis by simp
qed

text \<open>
  Claim C5. An array that flattens to the numbers \<open>xs\<close>, coerced to \<^verbatim>\<open>'int32'\<close>, gives a
  new \<^verbatim>\<open>Int32Array\<close> that holds \<^verbatim>\<open>ToInt32\<close> of each number. The fraction is dropped,
  not rounded: the integer kept is the floor of a non-negative number and the ceiling of
  a negative one. It is stored as a signed 32-bit value, unchanged when it is within the
  32-bit range and modulo \<open>2^32\<close> in general. When the debug flag is set the validator
  runs first and, if it throws, nothing is allocated. In particular
  \<^verbatim>\<open>toTypedArray([1.5, -2.7, 0], 'int32')\<close> is the array \<^verbatim>\<open>[1, -2, 0]\<close> of three 32-bit
  integers (\<open>-2.7\<close> is the double \<open>-3039929748475085 / 2^50\<close>).
\<close>

theorem toTypedArray_int32:
  "(isArray a \<and> flatten h a None False = map VNumber xs \<longrightarrow>
      toTypedArray E base env a (Some ''int32'') h =
        (case (if DEBUG env then checkConversionForErrors base h (VArray (map VNumber xs)) (Some ''int32'') else None) of
           Some e \<Rightarrow> (Inl e, h)
         | None \<Rightarrow> (Inr (VTyped (length h)), h @ [Int32Array (map ToInt32 xs)]))) \<and>
   (- (2 ^ 31) \<le> truncate_rat q \<and> truncate_rat q < 2 ^ 31 \<longrightarrow>
      sint (ToInt32 (Fin q)) = truncate_rat q) \<and>
   sint (ToInt32 (Fin q)) mod 2 ^ 32 = truncate_rat q mod 2 ^ 32 \<and>
   truncate_rat q = (if 0 \<le> q then \<lfloor>q\<rfloor> else \<lceil>q\<rceil>) \<and>
   (\<not> DEBUG env \<longrightarrow>
      toTypedArray E base env
        (VArray [VNumber (Fin (3 / 2)), VNumber (Fin (- 3039929748475085 / 1125899906842624)),
                 VNumber (Fin 0)])
        (Some ''int32'') h
      = (Inr (VTyped (length h)), h @ [Int32Array [1, - 2, 0]]))"
proof (intro conjI impI)
  assume "isArray a \<and> flatten h a None False = map VNumber xs"
  then have a: "isArray a" "flatten h a None False = map VNumber xs" by simp_all
  show "toTypedArray E base env a (Some ''int32'') h =
        (case (if DEBUG env then checkConversionForErrors base h (VArray (map VNumber xs)) (Some ''int32'') else None) of
           Some e \<Rightarrow> (Inl e, h)
         | None \<Rightarrow> (Inr (VTyped (length h)), h @ [Int32Array (map ToInt32 xs)]))"
    by (simp add: toTypedArray_numbers [OF a])
next
  assume "- (2 ^ 31) \<le> truncate_rat q \<and> truncate_rat q < 2 ^ 31"
  then show "sint (ToInt32 (Fin q)) = truncate_rat q"
    by (elim conjE) (rule sint_ToInt32)
next
  show "sint (ToInt32 (Fin q)) mod 2 ^ 32 = truncate_rat q mod 2 ^ 32"
    by (rule ToInt32_wraps)
next
  show "truncate_rat q = (if 0 \<le> q then \<lfloor>q\<rfloor> else \<lceil>q\<rceil>)"
    by (rule truncate_rat_floor_ceiling)
next
  assume d: "\<not> DEBUG env"
  let ?xs = "[Fin (3 / 2), Fin (- 3039929748475085 / 1125899906842624), Fin 0]"
  have f: "flatten h (VArray (map VNumber ?xs)) None False = map VNumber ?xs"
    by (rule flatten_numbers)
  have "toTypedArray E base env (VArray (map VNumber ?xs)) (Some ''int32'') h
      = (Inr (VTyped (length h)), h @ [Int32Array (map ToInt32 ?xs)])"
    using d by (subst toTypedArray_numbers [OF _ f]) simp_all
  moreover have "map ToInt32 ?xs = [1, - 2, 0]"
    by (simp add: truncate_rat_def)
  ultimately show "toTypedArray E base env
        (VArray [VNumber (Fin (3 / 2)), VNumber (Fin (- 3039929748475085 / 1125899906842624)),
                 VNumber (Fin 0)])
        (Some ''int32'') h
      = (Inr (VTyped (length h)), h @ [Int32Array [1, - 2, 0]])"
    by simp
qed

theorem toTypedArray_int32_witness:
  "isArray (VArray [VNumber (Fin (- (7 / 2))), VArray [VNumber (Fin 4294967297)]]) \<and>
   flatten [Uint8Array []] (VArray [VNumber (Fin (- (7 / 2))), VArray [VNumber (Fin 4294967297)]]) None False
     = map VNumber [Fin (- (7 / 2)), Fin 4294967297] \<and>
   toTypedArray \<lparr>StringToNumber = \<lambda>s. NaN, ObjectToNumber = \<lambda>h v. Inr NaN\<rparr>
     \<lparr>checkConversionForErrors = \<lambda>h a d. None\<rparr>
     \<lparr>DEBUG = False, encode = \<lambda>s e h. (Inl TypeError, h), decode = \<lambda>b e h. (Inl TypeError, h)\<rparr>
     (VArray [VNumber (Fin (- (7 / 2))), VArray [VNumber (Fin 4294967297)]]) (Some ''int32'') [Uint8Array []]
   = (Inr (VTyped 1), [Uint8Array [], Int32Array [- 3, 1]]) \<and>
   sint (ToInt32 (Fin (- (7 / 2)))) = - 3"
proof -
  have f: "flatten [Uint8Array []] (VArray [VNumber (Fin (- (7 / 2))), VArray [VNumber (Fin 4294967297)]]) None False
     = map VNumber [Fin (- (7 / 2)), Fin 4294967297]"
    by code_simp
  have r: "map ToInt32 [Fin (- (7 / 2)), Fin 4294967297] = [- 3, 1]"
    by (simp add: truncate_rat_def)
  have t: "truncate_rat (- (7 / 2)) = - 3"
    by (simp add: truncate_rat_def)
  from toTypedArray_int32 [of "VArray [VNumber (Fin (- (7 / 2))), VArray [VNumber (Fin 4294967297)]]"
      "[Uint8Array []]" "[Fin (- (7 / 2)), Fin 4294967297]"
      "\<lparr>StringToNumber = \<lambda>s. NaN, ObjectToNumber = \<lambda>h v. Inr NaN\<rparr>"
      "\<lparr>checkConversionForErrors = \<lambda>h a d. None\<rparr>"
      "\<lparr>DEBUG = False, encode = \<lambda>s e h. (Inl TypeError, h), decode = \<lambda>b e h. (Inl TypeError, h)\<rparr>"
      "- (7 / 2)"] f r t
  show ?thesis by simp
qed

text \<open>
  Claim C4. When the input is a typed array whose kind is that of the data type asked
  for (\<^verbatim>\<open>Float32Array\<close> and \<^verbatim>\<open>'float32'\<close>, \<^verbatim>\<open>Int32Array\<close> and \<^verbatim>\<open>'int32'\<close>,
  \<^verbatim>\<open>Uint8Array\<close> and \<^verbatim>\<open>'bool'\<close>), which is what \<open>noConversionNeeded\<close> tests,
  \<^verbatim>\<open>toTypedArray\<close> returns that very reference and leaves the store as it was:
  nothing is copied, allocated or written. The only call made before is that of the
  validator, when the debug flag is set: if it throws, its error is the outcome, and the
  store is unchanged then too.
\<close>

theorem toTypedArray_no_conversion:
  "(lookup h r = Some t \<and>
    (case t of
       Float32Array _ \<Rightarrow> dtype = Some ''float32''
     | Int32Array _ \<Rightarrow> dtype = Some ''int32''
     | Uint8Array _ \<Rightarrow> dtype = Some ''bool''
     | Uint8ClampedArray _ \<Rightarrow> False) \<longrightarrow>
    noConversionNeeded h (VTyped r) dtype \<and>
    toTypedArray E base env (VTyped r) dtype h =
      ((case (if DEBUG env then checkConversionForErrors base h (VTyped r) dtype else None) of
          Some e \<Rightarrow> Inl e
        | None \<Rightarrow> Inr (VTyped r)), h)) \<and>
   (noConversionNeeded h a dtype \<longrightarrow>
      (\<exists>r t. a = VTyped r \<and> lookup h r = Some t) \<and>
      toTypedArray E base env a dtype h =
        ((case (if DEBUG env then checkConversionForErrors base h a dtype else None) of
            Some e \<Rightarrow> Inl e
          | None \<Rightarrow> Inr a), h))"
proof -
  have main: "toTypedArray E base env a dtype h =
        ((case (if DEBUG env then checkConversionForErrors base h a dtype else None) of
            Some e \<Rightarrow> Inl e
          | None \<Rightarrow> Inr a), h) \<and> (\<exists>r t. a = VTyped r \<and> lookup h r = Some t)"
    if n: "noConversionNeeded h a dtype" for a
  proof -
    from n obtain r where a: "a = VTyped r"
      by (cases a) (simp_all add: noConversionNeeded_def)
    with n obtain t where t: "lookup h r = Some t"
      by (cases "lookup h r") (simp_all add: noConversionNeeded_def)
    from n have "dtype \<noteq> Some ''string''"
      by (auto simp: noConversionNeeded_def)
    with n a t show ?thesis
      by (simp add: toTypedArray_def split: option.split)
  qed
  have "noConversionNeeded h (VTyped r) dtype"
    if "lookup h r = Some t" and "case t of
       Float32Array _ \<Rightarrow> dtype = Some ''float32''
     | Int32Array _ \<Rightarrow> dtype = Some ''int32''
     | Uint8Array _ \<Rightarrow> dtype = Some ''bool''
     | Uint8ClampedArray _ \<Rightarrow> False"
    using that by (cases t) (simp_all add: noConversionNeeded_def)
  with main show ?thesis by blast
qed

theorem toTypedArray_no_conversion_witness:
  "lookup [Int32Array [5], Float32Array [NaN, Fin (1 / 2)]] 1 = Some (Float32Array [NaN, Fin (1 / 2)]) \<and>
   noConversionNeeded [Int32Array [5], Float32Array [NaN, Fin (1 / 2)]] (VTyped 1) (Some ''float32'') \<and>
   toTypedArray \<lparr>StringToNumber = \<lambda>s. NaN, ObjectToNumber = \<lambda>h v. Inr NaN\<rparr>
     \<lparr>checkConversionForErrors = \<lambda>h a d. Some RangeError\<rparr>
     \<lparr>DEBUG = False, encode = \<lambda>s e h. (Inl TypeError, h), decode = \<lambda>b e h. (Inl TypeError, h)\<rparr>
     (VTyped 1) (Some ''float32'') [Int32Array [5], Float32Array [NaN, Fin (1 / 2)]]
   = (Inr (VTyped 1), [Int32Array [5], Float32Array [NaN, Fin (1 / 2)]])"
  using toTypedArray_no_conversion [of "[Int32Array [5], Float32Array [NaN, Fin (1 / 2)]]" 1
      "Float32Array [NaN, Fin (1 / 2)]" "Some ''float32''"
      "\<lparr>StringToNumber = \<lambda>s. NaN, ObjectToNumber = \<lambda>h v. Inr NaN\<rparr>"
      "\<lparr>checkConversionForErrors = \<lambda>h a d. Some RangeError\<rparr>"
      "\<lparr>DEBUG = False, encode = \<lambda>s e h. (Inl TypeError, h), decode = \<lambda>b e h. (Inl TypeError, h)\<rparr>"
      "VTyped 1"]
  by (simp add: lookup_def)

text \<open>
  Claim C6. For the data type \<^verbatim>\<open>'string'\<close> \<^verbatim>\<open>toTypedArray\<close> throws, whatever the
  input, the environment and the collaborators are, before it does anything else: the
  error is the one the source raises for an unsupported type, the store is untouched,
  and no codec is called (\<^verbatim>\<open>toTypedArray\<close> never calls one).
\<close>

theorem toTypedArray_string:
  "toTypedArray E base env a (Some ''string'') h
     = (Inl (Error ''Cannot convert a string[] to a TypedArray''), h)"
  by (simp add: toTypedArray_def)

theorem toTypedArray_string_witness:
  "toTypedArray \<lparr>StringToNumber = \<lambda>s. NaN, ObjectToNumber = \<lambda>h v. Inr NaN\<rparr>
     \<lparr>checkConversionForErrors = \<lambda>h a d. None\<rparr>
     \<lparr>DEBUG = False, encode = \<lambda>s e h. (Inr (VTyped 0), h), decode = \<lambda>b e h. (Inr (VString []), h)\<rparr>
     (VArray [VString ''a'']) (Some ''string'') [Uint8Array [97]]
   = (Inl (Error ''Cannot convert a string[] to a TypedArray''), [Uint8Array [97]])"
  by (rule toTypedArray_string)

text \<open>
  Claim C7. \<^verbatim>\<open>toTypedArray([1e40], 'int32')\<close>, where \<open>1e40\<close> is the double
  \<open>10000000000000000303786028427003666890752\<close>. With the debug flag set and the
  validator of the specification, the call throws the validator's range error and the
  store is as it was: no array has been allocated. Without the flag the validator is
  not called, whichever it is, and the result is a new \<^verbatim>\<open>Int32Array\<close> holding the
  truncated value modulo \<open>2^32\<close>, which is 0.
\<close>

theorem toTypedArray_debug_validation:
  "toTypedArray E \<lparr>checkConversionForErrors = checkConversionForErrors_spec\<rparr> env
       (VArray [VNumber (Fin 10000000000000000303786028427003666890752)]) (Some ''int32'') h
     = (if DEBUG env then (Inl RangeError, h)
        else (Inr (VTyped (length h)), h @ [Int32Array [0]])) \<and>
   (\<not> DEBUG env \<longrightarrow>
      toTypedArray E base env
        (VArray [VNumber (Fin 10000000000000000303786028427003666890752)]) (Some ''int32'') h
      = (Inr (VTyped (length h)), h @ [Int32Array [0]]))"
proof -
  let ?x = "Fin 10000000000000000303786028427003666890752"
  have f: "flatten h (VArray (map VNumber [?x])) None False = map VNumber [?x]"
    by (rule flatten_numbers)
  have c: "checkConversionForErrors_spec h (VArray (map VNumber [?x])) (Some ''int32'') = Some RangeError"
    by (simp add: checkConversionForErrors_spec_def faithful_def)
  have "toTypedArray E b env (VArray (map VNumber [?x])) (Some ''int32'') h
      = (case (if DEBUG env then checkConversionForErrors b h (VArray (map VNumber [?x])) (Some ''int32'') else None) of
           Some e \<Rightarrow> (Inl e, h)
         | None \<Rightarrow> (Inr (VTyped (length h)), h @ [Int32Array [0]]))" for b
    by (subst toTypedArray_numbers [OF _ f]) (simp_all add: truncate_rat_def split: option.split)
  from this [of "\<lparr>checkConversionForErrors = checkConversionForErrors_spec\<rparr>"] this [of base] c
  show ?thesis by simp
qed

theorem toTypedArray_debug_validation_witness:
  "toTypedArray \<lparr>StringToNumber = \<lambda>s. NaN, ObjectToNumber = \<lambda>h v. Inr NaN\<rparr>
     \<lparr>checkConversionForErrors = checkConversionForErrors_spec\<rparr>
     \<lparr>DEBUG = True, encode = \<lambda>s e h. (Inl TypeError, h), decode = \<lambda>b e h. (Inl TypeError, h)\<rparr>
     (VArray [VNumber (Fin 10000000000000000303786028427003666890752)]) (Some ''int32'')
     [Float32Array []]
   = (Inl RangeError, [Float32Array []]) \<and>
   toTypedArray \<lparr>StringToNumber = \<lambda>s. NaN, ObjectToNumber = \<lambda>h v. Inr NaN\<rparr>
     \<lparr>checkConversionForErrors = \<lambda>h a d. Some RangeError\<rparr>
     \<lparr>DEBUG = False, encode = \<lambda>s e h. (Inl TypeError, h), decode = \<lambda>b e h. (Inl TypeError, h)\<rparr>
     (VArray [VNumber (Fin 10000000000000000303786028427003666890752)]) (Some ''int32'')
     [Float32Array []]
   = (Inr (VTyped 1), [Float32Array [], Int32Array [0]])"
  using
    toTypedArray_debug_validation [of "\<lparr>StringToNumber = \<lambda>s. NaN, ObjectToNumber = \<lambda>h v. Inr NaN\<rparr>"
      "\<lparr>DEBUG = True, encode = \<lambda>s e h. (Inl TypeError, h), decode = \<lambda>b e h. (Inl TypeError, h)\<rparr>"
      "[Float32Array []]" "\<lparr>checkConversionForErrors = \<lambda>h a d. Some RangeError\<rparr>"]
    toTypedArray_debug_validation [of "\<lparr>StringToNumber = \<lambda>s. NaN, ObjectToNumber = \<lambda>h v. Inr NaN\<rparr>"
      "\<lparr>DEBUG = False, encode = \<lambda>s e h. (Inl TypeError, h), decode = \<lambda>b e h. (Inl TypeError, h)\<rparr>"
      "[Float32Array []]" "\<lparr>checkConversionForErrors = \<lambda>h a d. Some RangeError\<rparr>"]
  by simp

text \<open>
  Claim C9. For a data type other than \<^verbatim>\<open>'string'\<close>, \<^verbatim>\<open>createScalarValue(value, dtype)\<close>
  is \<^verbatim>\<open>toTypedArray([value], dtype)\<close>: the same outcome and the same store. For
  \<^verbatim>\<open>'string'\<close> it is \<^verbatim>\<open>encodeString(value)\<close>, that is the platform's encoding of the
  value under \<^verbatim>\<open>'utf-8'\<close>.
\<close>

theorem createScalarValue_delegates:
  "(dtype \<noteq> Some ''string'' \<longrightarrow>
      createScalarValue E base env v dtype h = toTypedArray E base env (VArray [v]) dtype h) \<and>
   createScalarValue E base env v (Some ''string'') h = encodeString env v None h \<and>
   createScalarValue E base env v (Some ''string'') h = encode env v ''utf-8'' h"
  by (simp add: createScalarValue_def encodeString_def)

theorem createScalarValue_delegates_witness:
  "Some ''int32'' \<noteq> Some ''string'' \<and>
   createScalarValue \<lparr>StringToNumber = \<lambda>s. NaN, ObjectToNumber = \<lambda>h v. Inr NaN\<rparr>
     \<lparr>checkConversionForErrors = \<lambda>h a d. None\<rparr>
     \<lparr>DEBUG = True, encode = \<lambda>s e h. (Inl TypeError, h), decode = \<lambda>b e h. (Inl TypeError, h)\<rparr>
     (VNumber (Fin (3 / 2))) (Some ''int32'') []
   = (Inr (VTyped 0), [Int32Array [1]])"
proof -
  let ?E = "\<lparr>StringToNumber = \<lambda>s. NaN, ObjectToNumber = \<lambda>h v. Inr NaN\<rparr>"
  let ?b = "\<lparr>checkConversionForErrors = \<lambda>h a d. None\<rparr>"
  let ?env = "\<lparr>DEBUG = True, encode = \<lambda>s e h. (Inl TypeError, h), decode = \<lambda>b e h. (Inl TypeError, h)\<rparr>"
  have f: "flatten [] (VArray (map VNumber [Fin (3 / 2)])) None False = map VNumber [Fin (3 / 2)]"
    by (rule flatten_numbers)
  have "toTypedArray ?E ?b ?env (VArray (map VNumber [Fin (3 / 2)])) (Some ''int32'') []
      = (Inr (VTyped 0), [Int32Array [1]])"
    by (subst toTypedArray_numbers [OF _ f]) (simp_all add: truncate_rat_def)
  with createScalarValue_delegates [of "Some ''int32''" ?E ?b ?env "VNumber (Fin (3 / 2))" "[]"]
  show ?thesis by simp
qed




end
